theory Spec2Isabelle
  imports Complex_Main
begin

section \<open>The stories list of the dialogs: layout, expansion, scrolling, hit-testing\<close>

text \<open>
  A shallow embedding of \<^verbatim>\<open>Telegram/SourceFiles/dialogs/ui/dialogs_stories_list.cpp\<close>.
  The widget \<^verbatim>\<open>Dialogs::Stories::List\<close> is a record of its members (the leading
  underscore of a member name is dropped); every member function that changes the widget
  takes the record and returns the new one. The conventions of the embedding:
  \<^item> \<^verbatim>\<open>int\<close> is \<open>int\<close>: pixel arithmetic is far from the 32-bit range, and signed
    overflow, undefined in C++, is not modelled. Integer division truncates towards zero
    (\<open>cdiv\<close>), and a zero divisor is the error \<open>DivisionByZero\<close>.
  \<^item> \<^verbatim>\<open>float64\<close> is \<open>real\<close>: a \<^verbatim>\<open>float64\<close> value is the real it denotes, and
    \<open>round64\<close> is the rounding of a result to \<^verbatim>\<open>float64\<close>. The layout is given with
    that rounding (\<open>computeLayout64\<close>) and with exact operations (\<open>computeLayout\<close>); the
    handlers use the second, and the quotient of \<^verbatim>\<open>updateExpanding\<close> is exact as well.
    A floating division by zero, which would give an infinity or a NaN, is the error
    \<open>NotFinite\<close>.
  \<^item> a failed \<^verbatim>\<open>Expects\<close> is the error \<open>ContractViolation\<close>; reading an empty
    \<^verbatim>\<open>std::optional\<close> is the error \<open>EmptyOptional\<close>.
  \<^item> an \<^verbatim>\<open>rpl::event_stream\<close> that fires is an \<open>Event\<close> appended to the field \<open>fired\<close>.
  \<^item> \<^verbatim>\<open>update()\<close> (a repaint request), \<^verbatim>\<open>e->accept()\<close> and \<^verbatim>\<open>e->ignore()\<close> have no
    effect on the members and are left out. Painting (with \<^verbatim>\<open>validateThumbnail\<close> and
    \<^verbatim>\<open>validateName\<close>), the context menu, the enter hook and
    \<^verbatim>\<open>collapsedGeometryCurrent\<close> are not modelled.
\<close>

subsection \<open>Constants\<close>

definition kSmallThumbsShown :: int where "kSmallThumbsShown = 3"
definition kPreloadPages :: int where "kPreloadPages = 2"
definition kExpandAfterRatio :: real where "kExpandAfterRatio = 72 / 100"
definition kCollapseAfterRatio :: real where "kCollapseAfterRatio = 68 / 100"
definition kFrictionRatio :: real where "kFrictionRatio = 15 / 100"

subsection \<open>Errors and arithmetic of the host language\<close>

datatype error = ContractViolation | DivisionByZero | NotFinite | EmptyOptional

definition andThen :: "error + 'a \<Rightarrow> ('a \<Rightarrow> error + 'b) \<Rightarrow> error + 'b" where
  "andThen m f = (case m of Inl e \<Rightarrow> Inl e | Inr x \<Rightarrow> f x)"

definition cdiv :: "int \<Rightarrow> int \<Rightarrow> int" where
  \<comment> \<open>C++ \<^verbatim>\<open>a / b\<close> on \<^verbatim>\<open>int\<close>, for \<open>b \<noteq> 0\<close>: the quotient truncated towards zero.\<close>
  "cdiv a b = sgn a * sgn b * (\<bar>a\<bar> div \<bar>b\<bar>)"

definition fdiv :: "real \<Rightarrow> real \<Rightarrow> error + real" where
  \<comment> \<open>C++ \<^verbatim>\<open>a / b\<close> on \<^verbatim>\<open>float64\<close>: not a finite number when \<open>b\<close> is zero.\<close>
  "fdiv a b = (if b = 0 then Inl NotFinite else Inr (a / b))"

definition toInt :: "real \<Rightarrow> int" where
  \<comment> \<open>The conversion of a \<^verbatim>\<open>float64\<close> to \<^verbatim>\<open>int\<close>: truncation towards zero.\<close>
  "toInt r = (if 0 \<le> r then \<lfloor>r\<rfloor> else \<lceil>r\<rceil>)"

definition clamp :: "int \<Rightarrow> int \<Rightarrow> int \<Rightarrow> int" where
  \<comment> \<open>\<^verbatim>\<open>std::clamp(v, lo, hi)\<close>, as the standard library computes it.\<close>
  "clamp v lo hi = (if v < lo then lo else if hi < v then hi else v)"

subsection \<open>The arithmetic of \<^verbatim>\<open>float64\<close>\<close>

text \<open>
  A finite \<^verbatim>\<open>float64\<close> (IEEE 754 binary64) is a real \<open>m * 2 powi e\<close> with an integer
  \<open>m\<close> of magnitude below \<open>2 ^ 53\<close> and \<open>e\<close> from \<open>- 1074\<close> on. Every operation of
  the source on \<^verbatim>\<open>float64\<close> values gives the exact result rounded to the nearest such
  real, a tie going to the even \<open>m\<close>: \<open>round64\<close>. For \<open>x\<close> that is not 0, \<open>ilog2 \<bar>x\<bar>\<close>
  is the exponent of its leading binary digit (\<open>bits n\<close> is the number of binary digits
  of \<open>n\<close>), so that \<open>e\<close> leaves 53 digits to \<open>m\<close>, or is \<open>- 1074\<close> for a subnormal result.
  The infinities are not modelled: a result of magnitude \<open>2 ^ 1024\<close> or more is rounded
  like any other. No layout comes near it: the sizes are 32-bit integers, the last
  observed ratio is a quotient of two of them and the blend lies between 0 and 1, so that
  every result stays below \<open>2 ^ 70\<close>.
\<close>

fun bits :: "nat \<Rightarrow> nat" where
  "bits n = (if n = 0 then 0 else Suc (bits (n div 2)))"

declare bits.simps [simp del]

definition ilog2 :: "real \<Rightarrow> int" where
  "ilog2 x =
     (if 1 \<le> x then int (bits (nat \<lfloor>x\<rfloor>)) - 1
      else - int (bits (nat (\<lceil>1 / x\<rceil> - 1))))"

definition roundEven :: "real \<Rightarrow> int" where
  "roundEven x =
     (let f = \<lfloor>x\<rfloor>; d = x - of_int f
      in if d < 1 / 2 then f else if 1 / 2 < d then f + 1 else if even f then f else f + 1)"

definition round64 :: "real \<Rightarrow> real" where
  "round64 x =
     (if x = 0 then 0
      else (let e = max (ilog2 \<bar>x\<bar> - 52) (- 1074)
            in sgn x * of_int (roundEven (\<bar>x\<bar> / 2 powi e)) * 2 powi e))"

subsection \<open>Qt geometry\<close>

record QPoint =
  px :: int
  py :: int

text \<open>
  A \<^verbatim>\<open>QRect\<close> keeps its corners, as Qt does: the width is \<open>x2 - x1 + 1\<close>.
\<close>

record QRect =
  x1 :: int
  y1 :: int
  x2 :: int
  y2 :: int

definition mkRect :: "int \<Rightarrow> int \<Rightarrow> int \<Rightarrow> int \<Rightarrow> QRect" where
  \<comment> \<open>\<^verbatim>\<open>QRect(left, top, width, height)\<close>\<close>
  "mkRect l t w h = \<lparr>x1 = l, y1 = t, x2 = l + w - 1, y2 = t + h - 1\<rparr>"

definition rectWidth :: "QRect \<Rightarrow> int" where
  "rectWidth r = x2 r - x1 r + 1"

definition rectHeight :: "QRect \<Rightarrow> int" where
  "rectHeight r = y2 r - y1 r + 1"

definition rectIsNull :: "QRect \<Rightarrow> bool" where
  "rectIsNull r = (x2 r = x1 r - 1 \<and> y2 r = y1 r - 1)"

definition united :: "QRect \<Rightarrow> QRect \<Rightarrow> QRect" where
  \<comment> \<open>\<^verbatim>\<open>QRect::united\<close>: the bounding rectangle, of the normalised operands.\<close>
  "united a b =
     (if rectIsNull a then b
      else if rectIsNull b then a
      else
        (let l1 = (if x2 a < x1 a - 1 then x2 a + 1 else x1 a);
             r1 = (if x2 a < x1 a - 1 then x1 a - 1 else x2 a);
             l2 = (if x2 b < x1 b - 1 then x2 b + 1 else x1 b);
             r2 = (if x2 b < x1 b - 1 then x1 b - 1 else x2 b);
             t1 = (if y2 a < y1 a - 1 then y2 a + 1 else y1 a);
             b1 = (if y2 a < y1 a - 1 then y1 a - 1 else y2 a);
             t2 = (if y2 b < y1 b - 1 then y2 b + 1 else y1 b);
             b2 = (if y2 b < y1 b - 1 then y1 b - 1 else y2 b)
         in \<lparr>x1 = min l1 l2, y1 = min t1 t2, x2 = max r1 r2, y2 = max b1 b2\<rparr>))"

subsection \<open>The style\<close>

text \<open>
  \<^verbatim>\<open>style::DialogsStories\<close> and \<^verbatim>\<open>style::DialogsStoriesList\<close> are generated from the
  style sheets, which are not part of the source file. They are parameters of the model:
  the fields the modelled functions read, with the suffix \<open>_st\<close>.
\<close>

record DialogsStories =
  left_st :: int
  height_st :: int
  photo_st :: int
  photoTop_st :: int
  photoLeft_st :: int
  shift_st :: int

record DialogsStoriesList =
  small :: DialogsStories
  full :: DialogsStories
  fullClickable :: bool

subsection \<open>Elements, items, the layout\<close>

text \<open>
  An \<^verbatim>\<open>Element\<close> of a content snapshot. The thumbnail is a shared pointer: a handle,
  \<open>None\<close> when null. Two elements are equal when all their fields are.
\<close>

record Element =
  elem_id :: nat
  name :: string
  thumbnail :: "nat option"
  count :: nat
  unreadCount :: nat
  skipSmall :: bool

text \<open>
  An \<^verbatim>\<open>Item\<close> of the widget. The cached name image is a handle, \<open>None\<close> for the null
  \<^verbatim>\<open>QImage()\<close>; the colour it was drawn with is \<open>None\<close> for a default \<^verbatim>\<open>QColor\<close>.
\<close>

record Item =
  element :: Element
  nameCache :: "nat option"
  nameCacheColor :: "nat option"
  subscribed :: bool

record Layout =
  itemsCount :: int
  geometryShift :: "real \<times> real"
  expandedRatio :: real
  ratio :: real
  thumbnailLeft :: real
  photoLeft :: real
  left :: real
  single :: real
  smallSkip :: int
  leftFull :: int
  leftSmall :: int
  singleFull :: int
  singleSmall :: int
  startIndexSmall :: int
  endIndexSmall :: int
  startIndexFull :: int
  endIndexFull :: int

subsection \<open>The widget\<close>

datatype State = Small | Changing | Full

datatype Cursor = cur_default | cur_pointer

datatype Event =
    Clicked nat
  | ToggleExpandedRequest bool
  | LoadMoreRequest

text \<open>
  The two animations belong to the animation clock of the user interface library. Of an
  animation the widget reads only \<^verbatim>\<open>animating()\<close> and \<^verbatim>\<open>value(final)\<close>: the model keeps
  \<open>Some v\<close> while the animation runs, with \<open>v\<close> its current value, and \<open>None\<close>
  otherwise.

  Modelled from the spec: the animation clock (\<^verbatim>\<open>start\<close>, \<^verbatim>\<open>value\<close>, \<^verbatim>\<open>stop\<close>,
  \<^verbatim>\<open>animating\<close>). A start on a running animation goes on from the value it has; the
  callback given to \<^verbatim>\<open>start\<close> runs on the clock's ticks, not inside \<^verbatim>\<open>start\<close>.
\<close>

type_synonym Animation = "real option"

definition animating :: "Animation \<Rightarrow> bool" where
  "animating a = (a \<noteq> None)"

definition anim_value :: "Animation \<Rightarrow> real \<Rightarrow> real" where
  "anim_value a final = (case a of None \<Rightarrow> final | Some v \<Rightarrow> v)"

definition anim_start :: "Animation \<Rightarrow> real \<Rightarrow> Animation" where
  "anim_start a from = (case a of None \<Rightarrow> Some from | Some v \<Rightarrow> Some v)"

text \<open>
  Beside the members, the record holds what the widget reads from Qt and the
  application: its geometry in the parent (\<^verbatim>\<open>x()\<close>, \<^verbatim>\<open>y()\<close>, \<^verbatim>\<open>width()\<close>), the global
  position of the parent's origin (for \<^verbatim>\<open>mapFromGlobal\<close>), the cursor,
  \<^verbatim>\<open>style::RightToLeft()\<close> and \<^verbatim>\<open>QApplication::startDragDistance()\<close>.
  \<^verbatim>\<open>Content\<close> is the list of its elements; \<^verbatim>\<open>_data\<close> is the list of its items.
  The alignment \<open>alignSmall\<close> is Qt's flag word (\<^verbatim>\<open>Qt::AlignRight\<close> is 2,
  \<^verbatim>\<open>Qt::AlignCenter\<close> is 132).
\<close>

record List =
  st :: DialogsStoriesList
  content :: "Element list"
  items :: "Item list"
  isEmpty :: bool
  scrollLeft :: int
  scrollLeftMax :: int
  startDraggingLeft :: int
  dragging :: bool
  lastMousePosition :: QPoint
  mouseDownPosition :: "QPoint option"
  selected :: int
  pressed :: int
  expanded :: bool
  lastRatio :: real
  lastExpandedHeight :: int
  expandIgnored :: bool
  state :: State
  expandedAnimation :: Animation
  expandCatchUpAnimation :: Animation
  positionSmall :: QPoint
  alignSmall :: int
  geometryFull :: QRect
  changingGeometryFrom :: QRect
  geometry :: QRect
  parentOrigin :: QPoint
  cursor :: Cursor
  rightToLeft :: bool
  startDragDistance :: int
  fired :: "Event list"

definition width :: "List \<Rightarrow> int" where
  "width w = rectWidth (geometry w)"

definition mapFromGlobal :: "List \<Rightarrow> QPoint \<Rightarrow> QPoint" where
  "mapFromGlobal w p =
     \<lparr>px = px p - px (parentOrigin w) - x1 (geometry w),
      py = py p - py (parentOrigin w) - y1 (geometry w)\<rparr>"

subsection \<open>The layout at a given blend of the two presentations\<close>

definition lerp :: "real \<Rightarrow> real \<Rightarrow> real \<Rightarrow> real" where
  \<comment> \<open>the lambda \<^verbatim>\<open>lerp\<close> of the source, with the ratio it captures as first argument\<close>
  "lerp r a b = a + (b - a) * r"

definition computeLayout :: "List \<Rightarrow> real \<Rightarrow> error + Layout" where
  "computeLayout w expanded' =
    (let sm = small (st w);
         fu = full (st w);
         expandedRatio' = lastRatio w;
         collapsedRatio = expandedRatio' * kFrictionRatio;
         ratio' = expandedRatio' * expanded' + collapsedRatio * (1 - expanded');
         widthFull = width w;
         itemsCount' = int (length (items w));
         leftFullMin = left_st fu;
         singleFullMin = photoLeft_st fu * 2 + photo_st fu;
         totalFull = leftFullMin + singleFullMin * itemsCount';
         skipSide = (if totalFull < widthFull
           then cdiv (widthFull - totalFull) (itemsCount' + 1)
           else 0);
         skipBetween = (if totalFull < widthFull \<and> itemsCount' > 1
           then cdiv (widthFull - totalFull - 2 * skipSide) (itemsCount' - 1)
           else skipSide);
         singleFull' = singleFullMin + skipBetween;
         smallSkip' = (if itemsCount' > 1 \<and> skipSmall (element (items w ! 0))
           then 1
           else 0);
         smallCount = min kSmallThumbsShown (itemsCount' - smallSkip');
         leftSmall' = left_st sm - (if smallSkip' \<noteq> 0 then shift_st sm else 0);
         leftFull' = left_st fu - scrollLeft w + skipSide
     in if singleFull' = 0 then Inl DivisionByZero
        else
          (let startIndexFull' = cdiv (max (- leftFull') 0) singleFull';
               cellLeftFull = leftFull' + (startIndexFull' * singleFull');
               endIndexFull' = min
                 (cdiv (width w - leftFull' + singleFull' - 1) singleFull')
                 itemsCount';
               startIndexSmall' = min startIndexFull' smallSkip';
               endIndexSmall' = smallSkip' + smallCount;
               cellLeftSmall = leftSmall' + (startIndexSmall' * shift_st sm);
               thumbnailLeftFull = cellLeftFull + photoLeft_st fu;
               thumbnailLeftSmall = cellLeftSmall + photoLeft_st sm;
               thumbnailLeft' = lerp ratio'
                 (real_of_int thumbnailLeftSmall) (real_of_int thumbnailLeftFull);
               photoLeft' = lerp ratio'
                 (real_of_int (photoLeft_st sm)) (real_of_int (photoLeft_st fu))
           in Inr \<lparr>
             itemsCount = itemsCount',
             geometryShift =
               ((if state w = Changing
                 then lerp ratio'
                   (real_of_int (x1 (changingGeometryFrom w)))
                   (real_of_int (x1 (geometryFull w)))
                   - real_of_int (x1 (geometry w))
                 else 0),
                (if state w = Changing
                 then lerp ratio'
                   (real_of_int (y1 (changingGeometryFrom w)))
                   (real_of_int (y1 (geometryFull w)))
                   - real_of_int (y1 (geometry w))
                 else 0)),
             expandedRatio = expandedRatio',
             ratio = ratio',
             thumbnailLeft = thumbnailLeft',
             photoLeft = photoLeft',
             left = thumbnailLeft' - photoLeft',
             single = lerp ratio'
               (real_of_int (shift_st sm)) (real_of_int singleFull'),
             smallSkip = smallSkip',
             leftFull = leftFull',
             leftSmall = leftSmall',
             singleFull = singleFull',
             singleSmall = shift_st sm,
             startIndexSmall = startIndexSmall',
             endIndexSmall = endIndexSmall',
             startIndexFull = startIndexFull',
             endIndexFull = endIndexFull'\<rparr>))"

text \<open>
  The same function with the rounding of its \<^verbatim>\<open>float64\<close> operations: \<open>rnd\<close> is applied
  to the result of every multiplication, addition and subtraction of the source, in the
  order in which the source evaluates them, and to the literal \<^verbatim>\<open>0.15\<close>. An \<^verbatim>\<open>int\<close>
  converts to \<^verbatim>\<open>float64\<close> without rounding, every 32-bit integer being a \<^verbatim>\<open>float64\<close>.
  With \<open>round64\<close> this is the arithmetic of the program, \<open>computeLayout64\<close>; with the
  identity it is \<open>computeLayout\<close>, which the handlers below use.
\<close>

definition lerpWith :: "(real \<Rightarrow> real) \<Rightarrow> real \<Rightarrow> real \<Rightarrow> real \<Rightarrow> real" where
  \<comment> \<open>the lambda \<^verbatim>\<open>lerp\<close> of the source: \<^verbatim>\<open>a + (b - a) * ratio\<close>\<close>
  "lerpWith rnd r a b = rnd (a + rnd (rnd (b - a) * r))"

definition computeLayoutWith :: "(real \<Rightarrow> real) \<Rightarrow> List \<Rightarrow> real \<Rightarrow> error + Layout" where
  "computeLayoutWith rnd w expanded' =
    (let sm = small (st w);
         fu = full (st w);
         expandedRatio' = lastRatio w;
         collapsedRatio = rnd (expandedRatio' * rnd kFrictionRatio);
         ratio' = rnd (rnd (expandedRatio' * expanded')
           + rnd (collapsedRatio * rnd (1 - expanded')));
         widthFull = width w;
         itemsCount' = int (length (items w));
         leftFullMin = left_st fu;
         singleFullMin = photoLeft_st fu * 2 + photo_st fu;
         totalFull = leftFullMin + singleFullMin * itemsCount';
         skipSide = (if totalFull < widthFull
           then cdiv (widthFull - totalFull) (itemsCount' + 1)
           else 0);
         skipBetween = (if totalFull < widthFull \<and> itemsCount' > 1
           then cdiv (widthFull - totalFull - 2 * skipSide) (itemsCount' - 1)
           else skipSide);
         singleFull' = singleFullMin + skipBetween;
         smallSkip' = (if itemsCount' > 1 \<and> skipSmall (element (items w ! 0))
           then 1
           else 0);
         smallCount = min kSmallThumbsShown (itemsCount' - smallSkip');
         leftSmall' = left_st sm - (if smallSkip' \<noteq> 0 then shift_st sm else 0);
         leftFull' = left_st fu - scrollLeft w + skipSide
     in if singleFull' = 0 then Inl DivisionByZero
        else
          (let startIndexFull' = cdiv (max (- leftFull') 0) singleFull';
               cellLeftFull = leftFull' + (startIndexFull' * singleFull');
               endIndexFull' = min
                 (cdiv (width w - leftFull' + singleFull' - 1) singleFull')
                 itemsCount';
               startIndexSmall' = min startIndexFull' smallSkip';
               endIndexSmall' = smallSkip' + smallCount;
               cellLeftSmall = leftSmall' + (startIndexSmall' * shift_st sm);
               thumbnailLeftFull = cellLeftFull + photoLeft_st fu;
               thumbnailLeftSmall = cellLeftSmall + photoLeft_st sm;
               thumbnailLeft' = lerpWith rnd ratio'
                 (real_of_int thumbnailLeftSmall) (real_of_int thumbnailLeftFull);
               photoLeft' = lerpWith rnd ratio'
                 (real_of_int (photoLeft_st sm)) (real_of_int (photoLeft_st fu))
           in Inr \<lparr>
             itemsCount = itemsCount',
             geometryShift =
               ((if state w = Changing
                 then rnd (lerpWith rnd ratio'
                   (real_of_int (x1 (changingGeometryFrom w)))
                   (real_of_int (x1 (geometryFull w)))
                   - real_of_int (x1 (geometry w)))
                 else 0),
                (if state w = Changing
                 then rnd (lerpWith rnd ratio'
                   (real_of_int (y1 (changingGeometryFrom w)))
                   (real_of_int (y1 (geometryFull w)))
                   - real_of_int (y1 (geometry w)))
                 else 0)),
             expandedRatio = expandedRatio',
             ratio = ratio',
             thumbnailLeft = thumbnailLeft',
             photoLeft = photoLeft',
             left = rnd (thumbnailLeft' - photoLeft'),
             single = lerpWith rnd ratio'
               (real_of_int (shift_st sm)) (real_of_int singleFull'),
             smallSkip = smallSkip',
             leftFull = leftFull',
             leftSmall = leftSmall',
             singleFull = singleFull',
             singleSmall = shift_st sm,
             startIndexSmall = startIndexSmall',
             endIndexSmall = endIndexSmall',
             startIndexFull = startIndexFull',
             endIndexFull = endIndexFull'\<rparr>))"

definition computeLayout64 :: "List \<Rightarrow> real \<Rightarrow> error + Layout" where
  "computeLayout64 w expanded' = computeLayoutWith round64 w expanded'"

subsection \<open>The two presentations of a layout\<close>

text \<open>
  \<open>blendedRatio\<close> is the local \<^verbatim>\<open>ratio\<close> of \<^verbatim>\<open>computeLayout(float64)\<close> in exact
  arithmetic. The interpolated fields of a layout are \<open>geometryShift\<close>, \<open>thumbnailLeft\<close>,
  \<open>photoLeft\<close>, \<open>left\<close> and \<open>single\<close>. \<open>pureCompact\<close> sets them to the values of the
  compact presentation (the first arguments of the source's \<^verbatim>\<open>lerp\<close> calls), \<open>pureFull\<close>
  to the values of the full presentation (the second arguments).
\<close>

definition blendedRatio :: "List \<Rightarrow> real \<Rightarrow> real" where
  "blendedRatio w e = lastRatio w * e + lastRatio w * kFrictionRatio * (1 - e)"

definition pureCompact :: "List \<Rightarrow> Layout \<Rightarrow> Layout" where
  "pureCompact w l =
     l\<lparr>geometryShift :=
         (if state w = Changing
          then (real_of_int (x1 (changingGeometryFrom w)) - real_of_int (x1 (geometry w)),
                real_of_int (y1 (changingGeometryFrom w)) - real_of_int (y1 (geometry w)))
          else (0, 0)),
       thumbnailLeft := real_of_int
         (leftSmall l + startIndexSmall l * singleSmall l + photoLeft_st (small (st w))),
       photoLeft := real_of_int (photoLeft_st (small (st w))),
       left := real_of_int (leftSmall l + startIndexSmall l * singleSmall l),
       single := real_of_int (singleSmall l)\<rparr>"

definition pureFull :: "List \<Rightarrow> Layout \<Rightarrow> Layout" where
  "pureFull w l =
     l\<lparr>geometryShift :=
         (if state w = Changing
          then (real_of_int (x1 (geometryFull w)) - real_of_int (x1 (geometry w)),
                real_of_int (y1 (geometryFull w)) - real_of_int (y1 (geometry w)))
          else (0, 0)),
       thumbnailLeft := real_of_int
         (leftFull l + startIndexFull l * singleFull l + photoLeft_st (full (st w))),
       photoLeft := real_of_int (photoLeft_st (full (st w))),
       left := real_of_int (leftFull l + startIndexFull l * singleFull l),
       single := real_of_int (singleFull l)\<rparr>"

text \<open>
  \<open>blendedRatioWith\<close> is the local \<^verbatim>\<open>ratio\<close> with the rounding \<open>rnd\<close>. \<open>blendWith\<close> sets
  the interpolated fields of a layout from a ratio and the values of its two
  presentations, in the operations of the source: \<open>thumbnailLeft\<close>, \<open>photoLeft\<close> and
  \<open>single\<close> are \<open>compact + (full - compact) * ratio\<close>, \<open>left\<close> is the difference of the
  first two, and a coordinate of \<open>geometryShift\<close> is such a blend of the two origins less
  the coordinate of the widget. \<open>extent\<close> is the largest magnitude among the integers
  that enter these fields, and 1 at least; \<open>magnitude\<close> is its product with the magnitude
  of the last observed ratio, or with 1 when that is smaller.
\<close>

definition blendedRatioWith :: "(real \<Rightarrow> real) \<Rightarrow> real \<Rightarrow> real \<Rightarrow> real" where
  "blendedRatioWith rnd lr e =
     rnd (rnd (lr * e) + rnd (rnd (lr * rnd kFrictionRatio) * rnd (1 - e)))"

definition blendWith :: "(real \<Rightarrow> real) \<Rightarrow> real \<Rightarrow> List \<Rightarrow> Layout \<Rightarrow> Layout" where
  "blendWith rnd r w l =
     l\<lparr>geometryShift :=
         (if state w = Changing
          then (rnd (lerpWith rnd r
                  (real_of_int (x1 (changingGeometryFrom w)))
                  (real_of_int (x1 (geometryFull w)))
                  - real_of_int (x1 (geometry w))),
                rnd (lerpWith rnd r
                  (real_of_int (y1 (changingGeometryFrom w)))
                  (real_of_int (y1 (geometryFull w)))
                  - real_of_int (y1 (geometry w))))
          else (0, 0)),
       ratio := r,
       thumbnailLeft := lerpWith rnd r
         (thumbnailLeft (pureCompact w l)) (thumbnailLeft (pureFull w l)),
       photoLeft := lerpWith rnd r (photoLeft (pureCompact w l)) (photoLeft (pureFull w l)),
       left := rnd
         (lerpWith rnd r (thumbnailLeft (pureCompact w l)) (thumbnailLeft (pureFull w l))
          - lerpWith rnd r (photoLeft (pureCompact w l)) (photoLeft (pureFull w l))),
       single := lerpWith rnd r (single (pureCompact w l)) (single (pureFull w l))\<rparr>"

definition extent :: "List \<Rightarrow> Layout \<Rightarrow> int" where
  "extent w l =
     max 1
      (max \<bar>leftSmall l + startIndexSmall l * singleSmall l + photoLeft_st (small (st w))\<bar>
      (max \<bar>leftFull l + startIndexFull l * singleFull l + photoLeft_st (full (st w))\<bar>
      (max \<bar>photoLeft_st (small (st w))\<bar>
      (max \<bar>photoLeft_st (full (st w))\<bar>
      (max \<bar>singleSmall l\<bar>
      (max \<bar>singleFull l\<bar>
      (max \<bar>x1 (changingGeometryFrom w)\<bar>
      (max \<bar>x1 (geometryFull w)\<bar>
      (max \<bar>x1 (geometry w)\<bar>
      (max \<bar>y1 (changingGeometryFrom w)\<bar>
      (max \<bar>y1 (geometryFull w)\<bar> \<bar>y1 (geometry w)\<bar>)))))))))))"

definition magnitude :: "List \<Rightarrow> Layout \<Rightarrow> real" where
  "magnitude w l = max 1 \<bar>lastRatio w\<bar> * real_of_int (extent w l)"

subsection \<open>Scrolling bounds\<close>

definition fire :: "Event \<Rightarrow> List \<Rightarrow> List" where
  "fire e w = w\<lparr>fired := fired w @ [e]\<rparr>"

definition checkLoadMore :: "List \<Rightarrow> List" where
  "checkLoadMore w =
     (if scrollLeftMax w - scrollLeft w < width w * kPreloadPages
      then fire LoadMoreRequest w
      else w)"

definition updateScrollMax :: "List \<Rightarrow> List" where
  "updateScrollMax w =
     (let fu = full (st w);
          singleFull' = photoLeft_st fu * 2 + photo_st fu;
          widthFull = left_st fu + int (length (items w)) * singleFull';
          w1 = w\<lparr>scrollLeftMax := max (widthFull - width w) 0\<rparr>;
          w2 = w1\<lparr>scrollLeft := clamp (scrollLeft w1) 0 (scrollLeftMax w1)\<rparr>
      in checkLoadMore w2)"

definition resizeEvent :: "List \<Rightarrow> List" where
  "resizeEvent w = updateScrollMax w"

text \<open>
  \<^verbatim>\<open>QWidget::setGeometry\<close> of a shown widget: the rectangle is stored, and a change of
  the size is followed by the resize event.
\<close>

definition setGeometry :: "List \<Rightarrow> QRect \<Rightarrow> List" where
  "setGeometry w r =
     (let w' = w\<lparr>geometry := r\<rparr>
      in if rectWidth r \<noteq> rectWidth (geometry w) \<or> rectHeight r \<noteq> rectHeight (geometry w)
         then resizeEvent w'
         else w')"

subsection \<open>The expansion controller\<close>

definition requestExpanded :: "List \<Rightarrow> bool \<Rightarrow> List" where
  "requestExpanded w expanded' =
     (let w1 = (if expanded w \<noteq> expanded'
            then w\<lparr>expanded := expanded',
                   expandedAnimation :=
                     anim_start (expandedAnimation w) (if expanded' then 0 else 1)\<rparr>
            else w)
      in fire (ToggleExpandedRequest (expanded w1)) w1)"

definition expandingRatio :: "int \<Rightarrow> int \<Rightarrow> error + real" where
  \<comment> \<open>the initialiser of \<^verbatim>\<open>ratio\<close> in \<^verbatim>\<open>updateExpanding\<close>\<close>
  "expandingRatio expandingHeight expandedHeight =
     (if expandingHeight = 0
      then Inr 0
      else fdiv (real_of_int expandingHeight) (real_of_int expandedHeight))"

definition updateExpanding :: "List \<Rightarrow> int \<Rightarrow> int \<Rightarrow> error + List" where
  "updateExpanding w expandingHeight expandedHeight =
     (if \<not> (expandingHeight = 0 \<or> expandedHeight > 0) then Inl ContractViolation
      else andThen (expandingRatio expandingHeight expandedHeight) (\<lambda>ratio'.
        if lastRatio w = ratio' then Inr w
        else
          (let expanding = (ratio' > lastRatio w);
               w1 = w\<lparr>lastRatio := ratio'\<rparr>;
               change = (if expanded w1
                 then (\<not> expanding \<and> ratio' < kCollapseAfterRatio)
                 else (expanding \<and> ratio' > kExpandAfterRatio))
           in Inr (if change then requestExpanded w1 (\<not> expanded w1) else w1))))"

text \<open>
  \<^verbatim>\<open>computeLayout()\<close>, the overload without argument: it updates the expansion first,
  so it returns the widget too.
\<close>

definition computeLayoutCurrent :: "List \<Rightarrow> error + (List \<times> Layout)" where
  "computeLayoutCurrent w =
     andThen
       (updateExpanding w
         (toInt (real_of_int (lastExpandedHeight w)
            * anim_value (expandCatchUpAnimation w) 1))
         (height_st (full (st w))))
       (\<lambda>w1. andThen
         (computeLayout w1 (anim_value (expandedAnimation w1) (if expanded w1 then 1 else 0)))
         (\<lambda>layout. Inr (w1, layout)))"

subsection \<open>The geometry of the widget and its discrete state\<close>

definition AlignRight :: int where "AlignRight = 2"
definition AlignCenter :: int where "AlignCenter = 132"

definition countSmallGeometry :: "List \<Rightarrow> error + QRect" where
  "countSmallGeometry w =
     andThen (computeLayout w 0) (\<lambda>layout.
       (let sm = small (st w);
            count' = endIndexSmall layout
              - max (startIndexSmall layout) (smallSkip layout);
            width' = left_st sm
              + photoLeft_st sm
              + photo_st sm + (count' - 1) * shift_st sm
              + photoLeft_st sm
              + left_st sm;
            left' = (if and (alignSmall w) AlignRight = AlignRight
              then px (positionSmall w) - width'
              else if and (alignSmall w) AlignCenter = AlignCenter
              then px (positionSmall w) - cdiv width' 2
              else px (positionSmall w))
        in Inr (mkRect
             left'
             (py (positionSmall w))
             width'
             (photoTop_st sm + photo_st sm + photoTop_st sm))))"

definition updateGeometry :: "List \<Rightarrow> error + List" where
  "updateGeometry w =
     (case state w of
        Small \<Rightarrow> andThen (countSmallGeometry w) (\<lambda>r. Inr (setGeometry w r))
      | Changing \<Rightarrow> andThen (countSmallGeometry w) (\<lambda>r.
          (let w1 = w\<lparr>changingGeometryFrom := r\<rparr>
           in Inr (setGeometry w1 (united (geometryFull w1) (changingGeometryFrom w1)))))
      | Full \<Rightarrow> Inr (setGeometry w (geometryFull w)))"

definition setState :: "List \<Rightarrow> State \<Rightarrow> error + List" where
  "setState w s =
     (if state w = s then Inr w
      else updateGeometry (w\<lparr>state := s\<rparr>))"

definition checkForFullState :: "List \<Rightarrow> error + (List \<times> bool)" where
  "checkForFullState w =
     (if animating (expandCatchUpAnimation w)
         \<or> animating (expandedAnimation w)
         \<or> lastExpandedHeight w < height_st (full (st w))
      then Inr (w, False)
      else andThen (setState w Full) (\<lambda>w'. Inr (w', True)))"

definition setExpandedHeight :: "List \<Rightarrow> int \<Rightarrow> bool \<Rightarrow> error + List" where
  "setExpandedHeight w height momentum =
     (let height' = clamp height 0 (height_st (full (st w)))
      in if lastExpandedHeight w = height' then Inr w
         else if momentum \<and> expandIgnored w then Inr w
         else if momentum \<and> height' > 0 \<and> lastExpandedHeight w = 0
         then Inr (w\<lparr>expandIgnored := True\<rparr>)
         else
           (let w1 = (if \<not> momentum \<and> expandIgnored w \<and> height' > 0
                  then w\<lparr>expandIgnored := False,
                         expandCatchUpAnimation :=
                           anim_start (expandCatchUpAnimation w) 0\<rparr>
                  else if height' = 0 \<and> animating (expandCatchUpAnimation w)
                  then w\<lparr>expandCatchUpAnimation := None\<rparr>
                  else w);
                w2 = w1\<lparr>lastExpandedHeight := height'\<rparr>
            in andThen (checkForFullState w2) (\<lambda>(w3, isFull).
                 if \<not> isFull
                 then setState w3 (if height' = 0 then Small else Changing)
                 else Inr w3)))"

definition setLayoutConstraints :: "List \<Rightarrow> QPoint \<Rightarrow> int \<Rightarrow> QRect \<Rightarrow> error + List" where
  "setLayoutConstraints w positionSmall' alignSmall' geometryFull' =
     updateGeometry (w\<lparr>positionSmall := positionSmall',
                       alignSmall := alignSmall',
                       geometryFull := geometryFull'\<rparr>)"

text \<open>
  The callbacks the widget gives to the two animations. The clock runs them at its
  ticks, after it has set the animation's value (\<open>Some v\<close>) or finished it (\<open>None\<close>).
  The event \<^verbatim>\<open>_collapsedGeometryChanged\<close> carries no data the modelled functions
  read and is left out.
\<close>

definition expandedAnimationTick :: "List \<Rightarrow> Animation \<Rightarrow> error + List" where
  "expandedAnimationTick w a =
     andThen (checkForFullState (w\<lparr>expandedAnimation := a\<rparr>)) (\<lambda>(w', isFull). Inr w')"

definition expandCatchUpAnimationTick :: "List \<Rightarrow> Animation \<Rightarrow> error + List" where
  "expandCatchUpAnimationTick w a =
     andThen (checkForFullState (w\<lparr>expandCatchUpAnimation := a\<rparr>)) (\<lambda>(w', isFull). Inr w')"

subsection \<open>The item store\<close>

text \<open>
  \<^verbatim>\<open>showContent\<close> moves an item out of the old vector when the new content has its id.
  The moved-from item stays in the old vector with its id, counts, flags and colour; its
  name, thumbnail and name image are null. \<open>takeById\<close> is \<^verbatim>\<open>ranges::find\<close> by id followed
  by the move: the item found first, and the old vector after the move.
\<close>

definition movedFrom :: "Item \<Rightarrow> Item" where
  "movedFrom item =
     item\<lparr>element := (element item)\<lparr>name := [], thumbnail := None\<rparr>,
          nameCache := None\<rparr>"

fun takeById :: "nat \<Rightarrow> Item list \<Rightarrow> (Item \<times> Item list) option" where
  "takeById i [] = None"
| "takeById i (item # rest) =
     (if elem_id (element item) = i then Some (item, movedFrom item # rest)
      else (case takeById i rest of
              None \<Rightarrow> None
            | Some (found, rest') \<Rightarrow> Some (found, item # rest')))"

definition mergeItem :: "Item \<Rightarrow> Element \<Rightarrow> Item" where
  \<comment> \<open>the body of the branch \<^verbatim>\<open>i != end(items)\<close>, on the item moved into the new vector\<close>
  "mergeItem item el =
     (let item1 = (if thumbnail (element item) \<noteq> thumbnail el
            then item\<lparr>element := (element item)\<lparr>thumbnail := thumbnail el\<rparr>,
                      subscribed := False\<rparr>
            else item);
          item2 = (if name (element item1) \<noteq> name el
            then item1\<lparr>element := (element item1)\<lparr>name := name el\<rparr>,
                       nameCache := None\<rparr>
            else item1)
      in item2\<lparr>element := (element item2)\<lparr>count := count el,
                                            unreadCount := unreadCount el\<rparr>\<rparr>)"

definition newItem :: "Element \<Rightarrow> Item" where
  \<comment> \<open>\<^verbatim>\<open>Item{ .element = element }\<close>\<close>
  "newItem el =
     \<lparr>element = el, nameCache = None, nameCacheColor = None, subscribed = False\<rparr>"

fun reconcile :: "Element list \<Rightarrow> Item list \<Rightarrow> Item list \<Rightarrow> Item list" where
  \<comment> \<open>the loop over the new elements: the old vector, the new vector so far\<close>
  "reconcile [] old new = new"
| "reconcile (el # els) old new =
     (case takeById (elem_id el) old of
        Some (item, old') \<Rightarrow> reconcile els old' (new @ [mergeItem item el])
      | None \<Rightarrow> reconcile els old (new @ [newItem el]))"

definition showContent :: "List \<Rightarrow> Element list \<Rightarrow> error + List" where
  "showContent w content' =
     (if content w = content' then Inr w
      else if content' = [] then Inr (w\<lparr>items := [], isEmpty := True\<rparr>)
      else
        (let wasCount = length (items w);
             w1 = w\<lparr>content := content'\<rparr>;
             w2 = w1\<lparr>items := reconcile (content w1) (items w1) []\<rparr>
         in andThen
              (if length (items w2) \<noteq> wasCount then updateGeometry w2 else Inr w2)
              (\<lambda>w3.
                 (let w4 = updateScrollMax w3
                  in Inr (if wasCount = 0 then w4\<lparr>isEmpty := False\<rparr> else w4)))))"

subsection \<open>Hit-testing\<close>

text \<open>
  \<open>hitTest\<close> is the body of \<^verbatim>\<open>updateSelected\<close> from \<^verbatim>\<open>firstRightFull\<close> to
  \<^verbatim>\<open>selected\<close>: the index under the local coordinate \<open>x\<close> in a layout, \<open>-1\<close>
  for none.
\<close>

definition hitTest :: "DialogsStoriesList \<Rightarrow> Layout \<Rightarrow> int \<Rightarrow> error + int" where
  "hitTest s layout x =
     (let sm = small s;
          firstRightFull = leftFull layout
            + (startIndexFull layout + 1) * singleFull layout;
          secondLeftFull = firstRightFull;
          firstRightSmall = leftSmall layout
            + photoLeft_st sm
            + photo_st sm;
          secondLeftSmall = (if smallSkip layout \<noteq> 0
            then (leftSmall layout + photoLeft_st sm + shift_st sm)
            else firstRightSmall);
          lastRightAddFull = 0;
          lastRightAddSmall = photoLeft_st sm;
          firstRight = lerp (ratio layout)
            (real_of_int firstRightSmall) (real_of_int firstRightFull);
          secondLeft = lerp (ratio layout)
            (real_of_int secondLeftSmall) (real_of_int secondLeftFull);
          lastRightAdd = lerp (ratio layout)
            (real_of_int lastRightAddSmall) (real_of_int lastRightAddFull);
          activateFull = (ratio layout \<ge> 1 / 2);
          startIndex = (if activateFull
            then startIndexFull layout
            else startIndexSmall layout);
          endIndex = (if activateFull
            then endIndexFull layout
            else endIndexSmall layout)
      in andThen
           (if real_of_int x < secondLeft
            then Inr 0
            else andThen
              (fdiv (max (real_of_int x - firstRight) 0) (single layout))
              (\<lambda>q. Inr (\<lfloor>q\<rfloor> + 1)))
           (\<lambda>infiniteIndex.
              (let index = (if endIndex = startIndex
                     then - 1
                     else if infiniteIndex = endIndex - startIndex
                       \<and> real_of_int x < firstRight
                         + real_of_int (endIndex - startIndex - 1) * single layout
                         + lastRightAdd
                     then infiniteIndex - 1
                     else if startIndex + infiniteIndex \<ge> endIndex
                     then (if fullClickable s then endIndex - 1 else - 1)
                     else infiniteIndex)
               in Inr (if index < 0 \<or> startIndex + index \<ge> itemsCount layout
                       then - 1
                       else startIndex + index))))"

definition updateSelected :: "List \<Rightarrow> error + List" where
  "updateSelected w =
     (if pressed w \<ge> 0 then Inr w
      else andThen (computeLayoutCurrent w) (\<lambda>(w1, layout).
        andThen
          (hitTest (st w1) layout (px (mapFromGlobal w1 (lastMousePosition w1))))
          (\<lambda>selected'.
             if selected w1 \<noteq> selected'
             then
               (let over = (selected' \<ge> 0);
                    w2 = (if over \<noteq> (selected w1 \<ge> 0)
                      then w1\<lparr>cursor := (if over then cur_pointer else cur_default)\<rparr>
                      else w1)
                in Inr (w2\<lparr>selected := selected'\<rparr>))
             else Inr w1)))"

subsection \<open>Pointer events\<close>

record QWheelEvent =
  angleDelta :: QPoint
  pixelDelta :: QPoint

datatype MouseButton = LeftButton | OtherButton

record QMouseEvent =
  button :: MouseButton
  globalPos :: QPoint

definition wheelEvent :: "List \<Rightarrow> QWheelEvent \<Rightarrow> error + List" where
  "wheelEvent w e =
     (let horizontal = (px (angleDelta e) \<noteq> 0)
      in if \<not> horizontal \<or> state w = Small then Inr w
         else
           (let delta = (if horizontal
                  then ((if rightToLeft w then - 1 else 1) * (if px (pixelDelta e) \<noteq> 0
                    then px (pixelDelta e)
                    else px (angleDelta e)))
                  else (if py (pixelDelta e) \<noteq> 0
                    then py (pixelDelta e)
                    else py (angleDelta e)));
                now = scrollLeft w;
                used = now - delta;
                next = clamp used 0 (scrollLeftMax w)
            in if next \<noteq> now
               then andThen
                 (updateSelected ((requestExpanded w True)\<lparr>scrollLeft := next\<rparr>))
                 (\<lambda>w'. Inr (checkLoadMore w'))
               else Inr w))"

definition mousePressEvent :: "List \<Rightarrow> QMouseEvent \<Rightarrow> error + List" where
  "mousePressEvent w e =
     (let proceed = (\<lambda>w0.
            andThen (updateSelected (w0\<lparr>lastMousePosition := globalPos e\<rparr>)) (\<lambda>w1.
              Inr (w1\<lparr>mouseDownPosition := Some (lastMousePosition w1),
                       pressed := selected w1\<rparr>)))
      in if button e \<noteq> LeftButton then Inr w
         else if state w = Small then proceed (requestExpanded w True)
         else if state w \<noteq> Full then Inr w
         else proceed w)"

definition manhattanLength :: "QPoint \<Rightarrow> int" where
  "manhattanLength p = \<bar>px p\<bar> + \<bar>py p\<bar>"

definition checkDragging :: "List \<Rightarrow> error + List" where
  "checkDragging w =
     (if dragging w
      then
        (case mouseDownPosition w of
           None \<Rightarrow> Inl EmptyOptional
         | Some down \<Rightarrow>
            (let sign = (if rightToLeft w then - 1 else 1);
                 newLeft = clamp
                   (sign * (px down - px (lastMousePosition w))
                     + startDraggingLeft w)
                   0
                   (scrollLeftMax w)
             in Inr (if newLeft \<noteq> scrollLeft w
                     then checkLoadMore (w\<lparr>scrollLeft := newLeft\<rparr>)
                     else w)))
      else Inr w)"

definition mouseMoveEvent :: "List \<Rightarrow> QMouseEvent \<Rightarrow> error + List" where
  "mouseMoveEvent w e =
     andThen (updateSelected (w\<lparr>lastMousePosition := globalPos e\<rparr>)) (\<lambda>w1.
       checkDragging
         (case mouseDownPosition w1 of
            Some down \<Rightarrow>
              (if \<not> dragging w1 \<and> state w1 = Full
                 \<and> manhattanLength
                     \<lparr>px = px (lastMousePosition w1) - px down,
                      py = py (lastMousePosition w1) - py down\<rparr>
                   \<ge> startDragDistance w1
               then w1\<lparr>dragging := True, startDraggingLeft := scrollLeft w1\<rparr>
               else w1)
          | None \<Rightarrow> w1))"

definition finishDragging :: "List \<Rightarrow> error + (List \<times> bool)" where
  "finishDragging w =
     (if \<not> dragging w then Inr (w, False)
      else andThen (checkDragging w) (\<lambda>w1.
        andThen (updateSelected (w1\<lparr>dragging := False\<rparr>)) (\<lambda>w2. Inr (w2, True))))"

definition asSizeT :: "int \<Rightarrow> int" where
  \<comment> \<open>an \<^verbatim>\<open>int\<close> converted to the 64-bit \<^verbatim>\<open>size_t\<close> it is compared with\<close>
  "asSizeT i = i mod 2 ^ 64"

definition mouseReleaseEvent :: "List \<Rightarrow> QMouseEvent \<Rightarrow> error + List" where
  "mouseReleaseEvent w e =
     (let w0 = w\<lparr>lastMousePosition := globalPos e\<rparr>;
          pressed' = pressed w0;
          w1 = w0\<lparr>pressed := - 1\<rparr>
      in andThen (finishDragging w1) (\<lambda>(w2, finished).
           if finished then Inr (w2\<lparr>mouseDownPosition := None\<rparr>)
           else andThen (updateSelected w2) (\<lambda>w3.
             (let w4 = (if selected w3 = pressed'
                    then (if \<not> expanded w3
                      then requestExpanded w3 True
                      else if asSizeT (selected w3) < int (length (items w3))
                      then fire
                        (Clicked (elem_id (element (items w3 ! nat (selected w3)))))
                        w3
                      else w3)
                    else w3)
              in Inr (w4\<lparr>mouseDownPosition := None\<rparr>)))))"

subsection \<open>Runs of the widget\<close>

datatype Input =
    ShowContent "Element list"
  | Resize int int
  | Wheel QWheelEvent
  | MousePress QMouseEvent
  | MouseMove QMouseEvent
  | MouseRelease QMouseEvent
  | SetExpandedHeight int bool
  | SetLayoutConstraints QPoint int QRect
  | ExpandedAnimationTick Animation
  | ExpandCatchUpAnimationTick Animation

text \<open>
  \<open>Resize wd ht\<close> is Qt resizing the widget in place and delivering the resize event.
\<close>

fun step :: "List \<Rightarrow> Input \<Rightarrow> error + List" where
  "step w (ShowContent c) = showContent w c"
| "step w (Resize wd ht) =
     Inr (resizeEvent (w\<lparr>geometry := mkRect (x1 (geometry w)) (y1 (geometry w)) wd ht\<rparr>))"
| "step w (Wheel e) = wheelEvent w e"
| "step w (MousePress e) = mousePressEvent w e"
| "step w (MouseMove e) = mouseMoveEvent w e"
| "step w (MouseRelease e) = mouseReleaseEvent w e"
| "step w (SetExpandedHeight h momentum) = setExpandedHeight w h momentum"
| "step w (SetLayoutConstraints p a r) = setLayoutConstraints w p a r"
| "step w (ExpandedAnimationTick a) = expandedAnimationTick w a"
| "step w (ExpandCatchUpAnimationTick a) = expandCatchUpAnimationTick w a"

fun run :: "List \<Rightarrow> Input list \<Rightarrow> error + List" where
  "run w [] = Inr w"
| "run w (i # is) = andThen (step w i) (\<lambda>w'. run w' is)"

subsection \<open>Notions used in the properties\<close>

text \<open>
  \<open>scrollView\<close> collects what the scrolling bounds depend on. \<open>scrollBound\<close> is
  \<^verbatim>\<open>max(widthFull - width(), 0)\<close> for the current items and width: the full row's
  content width less the viewport's, never negative. \<open>scrollInRange\<close> says that the offset
  lies between 0 and the stored maximum, \<open>scrollMaxExact\<close> that the stored maximum is the
  bound. \<open>clearsItems\<close> holds of the inputs that give an empty content.
  \<open>reconciledFrom seen old c\<close> lists the items that the loop of \<^verbatim>\<open>showContent\<close> makes for
  the elements \<open>c\<close> from the store \<open>old\<close>, when the items of the ids \<open>seen\<close> have been
  moved out of the store before: an id met again finds the moved-from item. \<open>rounds\<close>
  bounds the error of a rounding to 53 binary digits, above the subnormal floor.
\<close>

definition scrollView ::
  "List \<Rightarrow> DialogsStoriesList \<times> Item list \<times> QRect \<times> int \<times> int" where
  "scrollView w = (st w, items w, geometry w, scrollLeft w, scrollLeftMax w)"

definition scrollBound :: "List \<Rightarrow> int" where
  "scrollBound w =
     max (left_st (full (st w))
          + int (length (items w)) * (photoLeft_st (full (st w)) * 2 + photo_st (full (st w)))
          - width w) 0"

definition scrollInRange :: "List \<Rightarrow> bool" where
  "scrollInRange w = (0 \<le> scrollLeft w \<and> scrollLeft w \<le> scrollLeftMax w)"

definition scrollMaxExact :: "List \<Rightarrow> bool" where
  "scrollMaxExact w = (scrollLeftMax w = scrollBound w)"

definition scrollInv :: "bool \<Rightarrow> List \<Rightarrow> bool" where
  "scrollInv exact w = (scrollInRange w \<and> (exact \<longrightarrow> scrollMaxExact w))"

fun clearsItems :: "Input \<Rightarrow> bool" where
  "clearsItems (ShowContent c) = (c = [])"
| "clearsItems i = False"

definition hasId :: "nat \<Rightarrow> Item \<Rightarrow> bool" where
  "hasId i item = (elem_id (element item) = i)"

fun reconciledFrom :: "nat set \<Rightarrow> Item list \<Rightarrow> Element list \<Rightarrow> Item list" where
  "reconciledFrom seen old [] = []"
| "reconciledFrom seen old (el # els) =
     (case find (hasId (elem_id el)) old of
        Some item \<Rightarrow> mergeItem (if elem_id el \<in> seen then movedFrom item else item) el
      | None \<Rightarrow> newItem el)
     # reconciledFrom (insert (elem_id el) seen) old els"

definition rounds :: "(real \<Rightarrow> real) \<Rightarrow> bool" where
  "rounds rnd = (\<forall>x. \<bar>rnd x - x\<bar> \<le> \<bar>x\<bar> / 2 ^ 53 + 1 / 2 ^ 1075)"

text \<open>
  A widget is \<open>wellFormed\<close> when none of its handlers can fail. The style gives a
  positive full height (the expansion ratio divides by it), a positive slot width of the
  full row and a positive shift of the compact row (hit-testing divides by the slot
  width, which lies between the two). The expanded height last set lies between 0 and the
  full height, which is what \<^verbatim>\<open>setExpandedHeight\<close> stores. The two animations, when
  running, have a value between 0 and 1, the range they are started with. A drag has a
  press position (\<^verbatim>\<open>checkDragging\<close> reads it). \<open>inputOk\<close> says the same of the animation
  value that a tick brings. \<open>succeeds P r\<close> says that \<open>r\<close> is a result, not an error, and
  that \<open>P\<close> holds of it.
\<close>

definition unitInterval :: "Animation \<Rightarrow> bool" where
  "unitInterval a = (case a of None \<Rightarrow> True | Some v \<Rightarrow> 0 \<le> v \<and> v \<le> 1)"

definition wellFormed :: "List \<Rightarrow> bool" where
  "wellFormed w =
     (0 < height_st (full (st w))
      \<and> 0 < photoLeft_st (full (st w)) * 2 + photo_st (full (st w))
      \<and> 0 < shift_st (small (st w))
      \<and> 0 \<le> lastExpandedHeight w \<and> lastExpandedHeight w \<le> height_st (full (st w))
      \<and> unitInterval (expandedAnimation w)
      \<and> unitInterval (expandCatchUpAnimation w)
      \<and> (dragging w \<longrightarrow> mouseDownPosition w \<noteq> None))"

definition succeeds :: "('a \<Rightarrow> bool) \<Rightarrow> error + 'a \<Rightarrow> bool" where
  "succeeds P r = (case r of Inl e \<Rightarrow> False | Inr x \<Rightarrow> P x)"

fun inputOk :: "Input \<Rightarrow> bool" where
  "inputOk (ExpandedAnimationTick a) = unitInterval a"
| "inputOk (ExpandCatchUpAnimationTick a) = unitInterval a"
| "inputOk i = True"

subsection \<open>A concrete widget\<close>

text \<open>
  Modelled from the spec: the widget after its constructor. The initial values of the
  members are in the header, which is not among the source files; the spec gives the
  initial state as compact, and the constructor resizes the widget to width 0.
\<close>

definition initial :: "DialogsStoriesList \<Rightarrow> List" where
  "initial s =
     \<lparr>st = s, content = [], items = [], isEmpty = True,
      scrollLeft = 0, scrollLeftMax = 0, startDraggingLeft = 0, dragging = False,
      lastMousePosition = \<lparr>px = 0, py = 0\<rparr>, mouseDownPosition = None,
      selected = - 1, pressed = - 1, expanded = False, lastRatio = 0,
      lastExpandedHeight = 0, expandIgnored = False, state = Small,
      expandedAnimation = None, expandCatchUpAnimation = None,
      positionSmall = \<lparr>px = 0, py = 0\<rparr>, alignSmall = 0,
      geometryFull = mkRect 0 0 0 0, changingGeometryFrom = mkRect 0 0 0 0,
      geometry = mkRect 0 0 0 0, parentOrigin = \<lparr>px = 0, py = 0\<rparr>,
      cursor = cur_default, rightToLeft = False, startDragDistance = 10,
      fired = []\<rparr>"

text \<open>The values used in the examples: a style, elements, and shown widgets.\<close>

definition exampleStyle :: DialogsStoriesList where
  "exampleStyle =
     \<lparr>small = \<lparr>left_st = 8, height_st = 30, photo_st = 20, photoTop_st = 4,
               photoLeft_st = 2, shift_st = 16\<rparr>,
      full = \<lparr>left_st = 10, height_st = 90, photo_st = 46, photoTop_st = 9,
              photoLeft_st = 6, shift_st = 16\<rparr>,
      fullClickable = False\<rparr>"

definition exampleElement :: "nat \<Rightarrow> Element" where
  "exampleElement i =
     \<lparr>elem_id = i, name = ''story'', thumbnail = Some i, count = 1, unreadCount = 0,
      skipSmall = False\<rparr>"

definition exampleItem :: "nat \<Rightarrow> Item" where
  "exampleItem i =
     \<lparr>element = exampleElement i, nameCache = Some i, nameCacheColor = Some 0,
      subscribed = True\<rparr>"

definition exampleCompact :: List where
  \<comment> \<open>three items, compact, in a widget 72 pixels wide\<close>
  "exampleCompact =
     (initial exampleStyle)
       \<lparr>content := map exampleElement [1, 2, 3],
        items := map exampleItem [1, 2, 3],
        isEmpty := False,
        geometry := mkRect 0 0 72 28,
        scrollLeftMax := 112\<rparr>"

definition exampleFull :: List where
  \<comment> \<open>ten items, fully expanded, in a widget 200 pixels wide, scrolled by 200\<close>
  "exampleFull =
     (initial exampleStyle)
       \<lparr>content := map exampleElement [0, 1, 2, 3, 4, 5, 6, 7, 8, 9],
        items := map exampleItem [0, 1, 2, 3, 4, 5, 6, 7, 8, 9],
        isEmpty := False,
        geometry := mkRect 0 0 200 90,
        geometryFull := mkRect 0 0 200 90,
        scrollLeft := 200,
        scrollLeftMax := 390,
        expanded := True,
        lastRatio := 1,
        lastExpandedHeight := 90,
        state := Full\<rparr>"

definition exampleChanging :: List where
  "exampleChanging =
     exampleFull\<lparr>lastRatio := 6 / 10, lastExpandedHeight := 54, state := Changing,
       changingGeometryFrom := mkRect 20 5 72 28\<rparr>"

definition exampleChanging64 :: List where
  \<comment> \<open>the same widget with the last observed ratio a \<^verbatim>\<open>float64\<close>, the one written 0.6\<close>
  "exampleChanging64 = exampleChanging\<lparr>lastRatio := round64 (6 / 10)\<rparr>"

definition exampleClickable :: List where
  "exampleClickable =
     exampleChanging\<lparr>st := exampleStyle\<lparr>fullClickable := True\<rparr>\<rparr>"

definition examplePress :: QMouseEvent where
  "examplePress = \<lparr>button = LeftButton, globalPos = \<lparr>px = 15, py = 10\<rparr>\<rparr>"

definition exampleWheel :: QWheelEvent where
  "exampleWheel = \<lparr>angleDelta = \<lparr>px = - 100, py = 0\<rparr>, pixelDelta = \<lparr>px = 0, py = 0\<rparr>\<rparr>"

definition exampleInputs :: "Input list" where
  "exampleInputs =
     [Wheel exampleWheel,
      MousePress examplePress,
      MouseMove \<lparr>button = LeftButton, globalPos = \<lparr>px = 75, py = 12\<rparr>\<rparr>,
      MouseRelease \<lparr>button = LeftButton, globalPos = \<lparr>px = 75, py = 12\<rparr>\<rparr>,
      Resize 300 90,
      ShowContent (map exampleElement [1, 2, 3, 4, 5, 6, 7])]"

section \<open>Properties\<close>

subsection \<open>Rounding to \<^verbatim>\<open>float64\<close>\<close>

text \<open>
  \<open>round64\<close> is within half a unit in the last place of its argument: the error is at
  most the \<open>2 ^ 53\<close>-th part of the argument, or \<open>1 / 2 ^ 1075\<close> for a subnormal result. It
  leaves a real \<open>m * 2 powi e\<close> with \<open>\<bar>m\<bar> < 2 ^ 53\<close> and \<open>- 1074 \<le> e\<close> as it is, so the
  integers up to \<open>2 ^ 53\<close> and its own results. The lemmas after these bound the error of
  the blended ratio and of \<^verbatim>\<open>lerp\<close> for any rounding with that error.
\<close>

lemma bits_bounds:
  "0 < n \<Longrightarrow> 2 ^ (bits n - 1) \<le> n \<and> n < 2 ^ bits n"
proof (induction n rule: bits.induct)
  case (1 n)
  show ?case
  proof (cases "n div 2 = 0")
    case True
    with 1(2) have "n = 1" by presburger
    then show ?thesis by (simp add: bits.simps)
  next
    case False
    then have p: "0 < n div 2" by simp
    from 1(2) have b: "bits n = Suc (bits (n div 2))"
      by (subst bits.simps) simp
    from p have "0 < bits (n div 2)" by (subst bits.simps) simp
    then obtain k where k: "bits (n div 2) = Suc k" by (cases "bits (n div 2)") simp_all
    from 1(1) [OF _ p] 1(2) k have "2 ^ k \<le> n div 2" "n div 2 < 2 ^ Suc k"
      by simp_all
    then have "2 * 2 ^ k \<le> n" "n < 2 * 2 ^ Suc k" by presburger+
    with b k show ?thesis by simp
  qed
qed

lemma ilog2_bounds:
  assumes "0 < x"
  shows "2 powi (ilog2 x) \<le> x" and "x < 2 powi (ilog2 x + 1)"
proof -
  have "2 powi (ilog2 x) \<le> x \<and> x < 2 powi (ilog2 x + 1)"
  proof (cases "1 \<le> x")
    case True
    define n where "n = nat \<lfloor>x\<rfloor>"
    from True have n: "0 < n" "real n \<le> x" "x < real n + 1"
      by (simp_all add: n_def)
    from bits_bounds [OF n(1)] have b: "2 ^ (bits n - 1) \<le> n" "n < 2 ^ bits n" by simp_all
    from n(1) have "0 < bits n" by (subst bits.simps) simp
    then have "ilog2 x = int (bits n - 1)" "ilog2 x + 1 = int (bits n)"
      using True by (simp_all add: ilog2_def n_def)
    then have e: "2 powi (ilog2 x) = (2::real) ^ (bits n - 1)"
      "2 powi (ilog2 x + 1) = (2::real) ^ bits n"
      by (simp_all only: power_int_of_nat)
    from b(1) have l: "(2::real) ^ (bits n - 1) \<le> real n"
      by (metis of_nat_le_iff of_nat_numeral of_nat_power)
    from b(2) have "n + 1 \<le> 2 ^ bits n" by simp
    then have "real (n + 1) \<le> 2 ^ bits n"
      by (metis of_nat_le_iff of_nat_numeral of_nat_power)
    then have u: "real n + 1 \<le> 2 ^ bits n" by simp
    show ?thesis
      unfolding e using l u n(2,3) by linarith
  next
    case False
    define y where "y = 1 / x"
    define m where "m = nat (\<lceil>y\<rceil> - 1)"
    from False assms have y: "1 < y" by (simp add: y_def)
    then have c: "2 \<le> \<lceil>y\<rceil>" by linarith
    then have m: "0 < m" "real m < y" "y \<le> real m + 1"
      by (simp_all add: m_def) linarith+
    from bits_bounds [OF m(1)] have b: "2 ^ (bits m - 1) \<le> m" "m < 2 ^ bits m" by simp_all
    from m(1) have p: "0 < bits m" by (subst bits.simps) simp
    have i: "ilog2 x = - int (bits m)"
      using False by (simp add: ilog2_def m_def y_def)
    from b(1) have "(2::real) ^ (bits m - 1) \<le> real m"
      by (metis of_nat_le_iff of_nat_numeral of_nat_power)
    with m(2) have u: "(2::real) ^ (bits m - 1) < y" by linarith
    from b(2) have "m + 1 \<le> 2 ^ bits m" by simp
    then have "real (m + 1) \<le> 2 ^ bits m"
      by (metis of_nat_le_iff of_nat_numeral of_nat_power)
    then have "real m + 1 \<le> 2 ^ bits m" by simp
    with m(3) have l: "y \<le> 2 ^ bits m" by linarith
    have x: "x = 1 / y" using assms by (simp add: y_def)
    have e: "2 powi (ilog2 x) = 1 / (2::real) ^ bits m"
      unfolding i by (simp add: power_int_minus field_simps)
    have e': "2 powi (ilog2 x + 1) = 1 / (2::real) ^ (bits m - 1)"
    proof -
      from p have "ilog2 x + 1 = - int (bits m - 1)" unfolding i by simp
      then show ?thesis by (simp add: power_int_minus field_simps)
    qed
    have "1 / 2 ^ bits m \<le> 1 / y"
      using l y by (intro divide_left_mono) simp_all
    moreover have "1 / y < 1 / 2 ^ (bits m - 1)"
      using u y by (intro divide_strict_left_mono) simp_all
    ultimately have "1 / 2 ^ bits m \<le> x \<and> x < 1 / 2 ^ (bits m - 1)"
      by (simp only: x)
    then show ?thesis
      by (simp only: e e')
  qed
  then show "2 powi (ilog2 x) \<le> x" and "x < 2 powi (ilog2 x + 1)" by simp_all
qed

lemma roundEven_near: "\<bar>of_int (roundEven x) - x\<bar> \<le> 1 / 2"
  unfolding roundEven_def Let_def by (auto simp add: abs_if) linarith+

lemma roundEven_of_int [simp]: "roundEven (of_int k) = k"
  by (simp add: roundEven_def)

lemma roundEven_le: "x \<le> of_int k \<Longrightarrow> roundEven x \<le> k"
  unfolding roundEven_def Let_def by (auto simp add: le_floor_iff) linarith+

lemma roundEven_nonneg: "0 \<le> x \<Longrightarrow> 0 \<le> roundEven x"
  unfolding roundEven_def Let_def by auto

lemma round64_minus: "round64 (- x) = - round64 x"
  by (simp add: round64_def Let_def sgn_minus)

lemma round64_error: "\<bar>round64 x - x\<bar> \<le> \<bar>x\<bar> / 2 ^ 53 + 1 / 2 ^ 1075"
proof (cases "x = 0")
  case True
  then show ?thesis by (simp add: round64_def)
next
  case False
  define a where "a = \<bar>x\<bar>"
  define e where "e = max (ilog2 a - 52) (- 1074)"
  define p :: real where "p = 2 powi e"
  define m where "m = roundEven (a / p)"
  from False have a: "0 < a" by (simp add: a_def)
  have p: "0 < p" by (simp add: p_def)
  have r: "round64 x = sgn x * of_int m * p"
    using False by (simp add: round64_def Let_def a_def e_def p_def m_def)
  have x: "x = sgn x * a"
    by (simp add: a_def sgn_mult_abs)
  have "round64 x - x = sgn x * (of_int m * p - a)"
    by (subst (2) x) (simp add: r algebra_simps)
  then have "\<bar>round64 x - x\<bar> = \<bar>of_int m * p - a\<bar>"
    using False by (simp add: abs_mult abs_sgn_eq)
  also have "of_int m * p - a = (of_int m - a / p) * p"
    using p by (simp add: field_simps)
  also have "\<bar>\<dots>\<bar> = \<bar>of_int m - a / p\<bar> * p"
    using p by (simp add: abs_mult)
  also have "\<dots> \<le> 1 / 2 * p"
    using roundEven_near [of "a / p"] p unfolding m_def by (intro mult_right_mono) simp_all
  also have "\<dots> \<le> a / 2 ^ 53 + 1 / 2 ^ 1075"
  proof (cases "ilog2 a - 52 \<le> - 1074")
    case True
    then have "e = - 1074" by (simp add: e_def)
    then have "p = 1 / 2 ^ 1074" by (simp add: p_def power_int_minus field_simps)
    with a show ?thesis by simp
  next
    case False
    then have "e = ilog2 a - 52" by (simp add: e_def)
    then have "p = 2 powi (ilog2 a) / 2 ^ 52"
      by (simp add: p_def power_int_diff)
    also have "\<dots> \<le> a / 2 ^ 52"
      using ilog2_bounds(1) [OF a] by (intro divide_right_mono) simp_all
    finally show ?thesis by simp
  qed
  finally show ?thesis by (simp add: a_def)
qed

lemma round64_exact_pos:
  assumes "0 < m" and "m < 2 ^ 53" and "- 1074 \<le> e"
  shows "round64 (of_int m * 2 powi e) = of_int m * 2 powi e"
proof -
  define v :: real where "v = of_int m * 2 powi e"
  define e' where "e' = max (ilog2 v - 52) (- 1074)"
  from assms(1) have v: "0 < v" by (simp add: v_def)
  have "2 powi (ilog2 v) \<le> v" using ilog2_bounds(1) [OF v] .
  also have "v < 2 ^ 53 * 2 powi e"
  proof -
    from assms(2) have "real_of_int m < 2 ^ 53"
      by (metis of_int_less_iff of_int_numeral of_int_power)
    then show ?thesis unfolding v_def by (intro mult_strict_right_mono) simp_all
  qed
  also have "\<dots> = 2 powi (53 + e)"
    by (simp add: power_int_add)
  finally have lt: "2 powi (ilog2 v) < (2::real) powi (53 + e)" .
  have "ilog2 v < 53 + e"
  proof (rule ccontr)
    assume "\<not> ilog2 v < 53 + e"
    then have "53 + e \<le> ilog2 v" by simp
    from power_int_increasing [OF this, of "2::real"] lt show False by simp
  qed
  with assms(3) have l: "e' \<le> e" by (simp add: e'_def)
  define d where "d = nat (e - e')"
  from l have e: "e = e' + int d" by (simp add: d_def)
  have q: "v / 2 powi e' = of_int (m * 2 ^ d)"
    unfolding v_def e by (simp add: power_int_add)
  have "round64 v = sgn v * of_int (roundEven (v / 2 powi e')) * 2 powi e'"
    using v by (simp add: round64_def Let_def e'_def)
  also have "\<dots> = of_int (m * 2 ^ d) * 2 powi e'"
    unfolding q roundEven_of_int using v by simp
  also have "\<dots> = v"
    unfolding v_def e by (simp add: power_int_add)
  finally show ?thesis by (simp add: v_def)
qed

lemma round64_exact:
  assumes "\<bar>m\<bar> < 2 ^ 53" and "- 1074 \<le> e"
  shows "round64 (of_int m * 2 powi e) = of_int m * 2 powi e"
proof -
  consider "m = 0" | "0 < m" | "m < 0" by linarith
  then show ?thesis
  proof cases
    case 1
    then show ?thesis by (simp add: round64_def)
  next
    case 2
    with assms show ?thesis by (intro round64_exact_pos) simp_all
  next
    case 3
    with assms have "round64 (of_int (- m) * 2 powi e) = of_int (- m) * 2 powi e"
      by (intro round64_exact_pos) simp_all
    then show ?thesis
      using round64_minus [of "of_int m * 2 powi e"] by simp
  qed
qed

lemma round64_of_int:
  assumes "\<bar>i\<bar> \<le> 2 ^ 53"
  shows "round64 (of_int i) = of_int i"
proof (cases "\<bar>i\<bar> = 2 ^ 53")
  case False
  with assms have "\<bar>i\<bar> < 2 ^ 53" by simp
  from round64_exact [OF this, of 0] show ?thesis by simp
next
  case True
  then have "i = 2 ^ 53 \<or> i = - (2 ^ 53)" by linarith
  moreover have "round64 (of_int (2 ^ 52) * 2 powi 1) = of_int (2 ^ 52) * 2 powi 1"
    by (intro round64_exact) simp_all
  moreover have "round64 (of_int (- (2 ^ 52)) * 2 powi 1) = of_int (- (2 ^ 52)) * 2 powi 1"
    by (intro round64_exact) simp_all
  ultimately show ?thesis by auto
qed

lemma round64_idem: "round64 (round64 x) = round64 x"
proof (cases "x = 0")
  case True
  then show ?thesis by (simp add: round64_def)
next
  case False
  define a where "a = \<bar>x\<bar>"
  define e where "e = max (ilog2 a - 52) (- 1074)"
  define m where "m = roundEven (a / 2 powi e)"
  from False have a: "0 < a" by (simp add: a_def)
  have r: "round64 x = sgn x * (of_int m * 2 powi e)"
    using False by (simp add: round64_def Let_def a_def e_def m_def)
  have e: "- 1074 \<le> e" "ilog2 a - 52 \<le> e" by (simp_all add: e_def)
  have "a < 2 powi (ilog2 a + 1)" using ilog2_bounds(2) [OF a] .
  also have "\<dots> \<le> 2 powi (e + 53)"
    using e(2) by (intro power_int_increasing) simp_all
  also have "\<dots> = 2 ^ 53 * 2 powi e"
    by (simp add: power_int_add)
  finally have "a / 2 powi e < 2 ^ 53"
    by (simp add: field_simps)
  then have "a / 2 powi e \<le> of_int (2 ^ 53)" by simp
  then have u: "m \<le> 2 ^ 53" unfolding m_def by (rule roundEven_le)
  have l: "0 \<le> m" unfolding m_def using a by (intro roundEven_nonneg) simp
  have "round64 (of_int m * 2 powi e) = of_int m * 2 powi e"
  proof (cases "m = 2 ^ 53")
    case False
    with u l have "\<bar>m\<bar> < 2 ^ 53" by simp
    then show ?thesis using e(1) by (rule round64_exact)
  next
    case True
    have "round64 (of_int (2 ^ 52) * 2 powi (e + 1)) = of_int (2 ^ 52) * 2 powi (e + 1)"
      using e(1) by (intro round64_exact) simp_all
    then show ?thesis
      unfolding True by (simp add: power_int_add)
  qed
  then have i: "round64 (of_int m * 2 powi e) = of_int m * 2 powi e" .
  consider "0 < x" | "x < 0" using False by linarith
  then show ?thesis
  proof cases
    case 1
    then show ?thesis unfolding r using i by simp
  next
    case 2
    then show ?thesis unfolding r using i round64_minus [of "of_int m * 2 powi e"] by simp
  qed
qed

lemma round64_0 [simp]: "round64 0 = 0"
  by (simp add: round64_def)

lemma round64_1 [simp]: "round64 1 = 1"
  using round64_of_int [of 1] by simp

lemma rounds_round64: "rounds round64"
  unfolding rounds_def using round64_error by blast

lemma rounds_id: "rounds (\<lambda>x. x)"
  by (simp add: rounds_def)

lemma rounds_near:
  assumes "rounds rnd" and "1 \<le> X" and "\<bar>x\<bar> \<le> X"
  shows "\<bar>rnd x - x\<bar> \<le> X / 2 ^ 52"
proof -
  from assms(1) have "\<bar>rnd x - x\<bar> \<le> \<bar>x\<bar> / 2 ^ 53 + 1 / 2 ^ 1075"
    by (simp add: rounds_def)
  also have "\<bar>x\<bar> / 2 ^ 53 \<le> X / 2 ^ 53"
    using assms(3) by (intro divide_right_mono) simp_all
  also have "(1::real) / 2 ^ 1075 \<le> 1 / 2 ^ 53"
    by (intro divide_left_mono power_increasing) simp_all
  also have "(1::real) / 2 ^ 53 \<le> X / 2 ^ 53"
    using assms(2) by (intro divide_right_mono) simp_all
  finally show ?thesis by simp
qed

lemma mult_near:
  fixes x y x' y' :: real
  assumes "\<bar>x - x'\<bar> \<le> ex" and "\<bar>y - y'\<bar> \<le> ey" and "\<bar>y\<bar> \<le> Y" and "\<bar>x'\<bar> \<le> X'"
  shows "\<bar>x * y - x' * y'\<bar> \<le> ex * Y + X' * ey"
proof -
  have "x * y - x' * y' = (x - x') * y + x' * (y - y')"
    by (simp add: algebra_simps)
  then have "\<bar>x * y - x' * y'\<bar> \<le> \<bar>x - x'\<bar> * \<bar>y\<bar> + \<bar>x'\<bar> * \<bar>y - y'\<bar>"
    by (simp add: abs_mult [symmetric]) 
  also have "\<bar>x - x'\<bar> * \<bar>y\<bar> \<le> ex * Y"
    using assms(1,3) by (intro mult_mono) simp_all
  also have "\<bar>x'\<bar> * \<bar>y - y'\<bar> \<le> X' * ey"
    using assms(2,4) by (intro mult_mono) simp_all
  finally show ?thesis by simp
qed

lemma abs_mult_le:
  fixes x y :: real
  assumes "\<bar>x\<bar> \<le> X" and "\<bar>y\<bar> \<le> Y"
  shows "\<bar>x * y\<bar> \<le> X * Y"
  unfolding abs_mult using assms by (intro mult_mono) simp_all

lemma blendedRatioWith_near:
  assumes r: "rounds rnd" and L: "\<bar>lr\<bar> \<le> L" "1 \<le> L" and e: "0 \<le> e" "e \<le> 1"
  shows "\<bar>blendedRatioWith rnd lr e - (lr * e + lr * kFrictionRatio * (1 - e))\<bar> \<le> 12 * L / 2 ^ 52"
    and "\<bar>lr * e + lr * kFrictionRatio * (1 - e)\<bar> \<le> L"
    and "\<bar>blendedRatioWith rnd lr e\<bar> \<le> 2 * L"
proof -
  define eps :: real where "eps = 1 / 2 ^ 52"
  define E where "E = L * eps"
  have eps: "0 < eps" "eps \<le> 1 / 64" by (simp_all add: eps_def)
  have E: "0 \<le> E" "64 * E \<le> L"
    using L(2) eps by (simp_all add: E_def)
  have near: "\<bar>rnd x - x\<bar> \<le> X * eps" if "1 \<le> X" "\<bar>x\<bar> \<le> X" for x X
    using rounds_near [OF r that] by (simp add: eps_def)
  define k where "k = kFrictionRatio"
  define k' where "k' = rnd k"
  define c where "c = rnd (lr * k')"
  define d where "d = rnd (1 - e)"
  define a2 where "a2 = rnd (c * d)"
  define a1 where "a1 = rnd (lr * e)"
  define rho where "rho = lr * e + lr * k * (1 - e)"
  have k: "0 \<le> k" "k \<le> 1 / 2" by (simp_all add: k_def kFrictionRatio_def)
  have k1: "\<bar>k' - k\<bar> \<le> eps"
    using near [of 1 k] k by (simp add: k'_def)
  then have k2: "\<bar>k'\<bar> \<le> 1" using k eps by linarith
  have "\<bar>lr * k'\<bar> \<le> L * 1" using L(1) k2 by (rule abs_mult_le)
  then have c1: "\<bar>c - lr * k'\<bar> \<le> E"
    using near [of L "lr * k'"] L(2) by (simp add: c_def E_def)
  have "\<bar>lr * k' - lr * k\<bar> \<le> 0 * 1 + L * eps"
    using L(1) k1 k2 by (intro mult_near) simp_all
  with c1 have c2: "\<bar>c - lr * k\<bar> \<le> 2 * E" by (simp add: E_def) 
  have lk: "\<bar>lr * k\<bar> \<le> L * 1" using L(1) k by (intro abs_mult_le) simp_all
  with c2 E have c3: "\<bar>c\<bar> \<le> 2 * L" by linarith
  have d1: "\<bar>d - (1 - e)\<bar> \<le> eps"
    using near [of 1 "1 - e"] e by (simp add: d_def)
  with e eps have d2: "\<bar>d\<bar> \<le> 2" by linarith
  have "\<bar>c * d - lr * k * (1 - e)\<bar> \<le> 2 * E * 2 + L * 1 * eps"
    using c2 d1 d2 lk by (rule mult_near)
  then have p1: "\<bar>c * d - lr * k * (1 - e)\<bar> \<le> 5 * E" by (simp add: E_def)
  have p2: "\<bar>c * d\<bar> \<le> 2 * L * 2" using c3 d2 by (rule abs_mult_le)
  have "\<bar>a2 - c * d\<bar> \<le> 4 * L * eps"
    using near [of "4 * L" "c * d"] p2 L(2) by (simp add: a2_def)
  with p1 have a2: "\<bar>a2 - lr * k * (1 - e)\<bar> \<le> 9 * E" by (simp add: E_def)
  have "\<bar>lr * e\<bar> \<le> L * 1" using L(1) e by (intro abs_mult_le) simp_all
  then have a1: "\<bar>a1 - lr * e\<bar> \<le> E"
    using near [of L "lr * e"] L(2) by (simp add: a1_def E_def)
  have "rho = lr * (e + k * (1 - e))" by (simp add: rho_def algebra_simps)
  moreover have "\<bar>e + k * (1 - e)\<bar> \<le> 1"
  proof -
    have "0 \<le> k * (1 - e)" using k e by simp
    moreover have "k * (1 - e) \<le> 1 * (1 - e)" using k e by (intro mult_right_mono) simp_all
    ultimately show ?thesis using e by simp
  qed
  ultimately have rho: "\<bar>rho\<bar> \<le> L"
    using abs_mult_le [OF L(1), of "e + k * (1 - e)" 1] by simp
  from a1 a2 have s1: "\<bar>a1 + a2 - rho\<bar> \<le> 10 * E" unfolding rho_def by linarith
  with rho E have s2: "\<bar>a1 + a2\<bar> \<le> 2 * L" by linarith
  have "\<bar>rnd (a1 + a2) - (a1 + a2)\<bar> \<le> 2 * L * eps"
    using near [of "2 * L" "a1 + a2"] s2 L(2) by simp
  with s1 have t: "\<bar>rnd (a1 + a2) - rho\<bar> \<le> 12 * E" by (simp add: E_def)
  have w: "blendedRatioWith rnd lr e = rnd (a1 + a2)"
    by (simp add: blendedRatioWith_def a1_def a2_def c_def d_def k'_def k_def)
  from t show "\<bar>blendedRatioWith rnd lr e - (lr * e + lr * kFrictionRatio * (1 - e))\<bar> \<le> 12 * L / 2 ^ 52"
    unfolding w rho_def k_def E_def eps_def by simp
  from rho show "\<bar>lr * e + lr * kFrictionRatio * (1 - e)\<bar> \<le> L"
    unfolding rho_def k_def .
  from t rho E show "\<bar>blendedRatioWith rnd lr e\<bar> \<le> 2 * L"
    unfolding w by linarith
qed

lemma lerpWith_near:
  assumes r: "rounds rnd" and M: "\<bar>a\<bar> \<le> M" "\<bar>b\<bar> \<le> M" "1 \<le> M" and L: "1 \<le> L"
    and t: "\<bar>t - rho\<bar> \<le> 12 * L / 2 ^ 52" "\<bar>rho\<bar> \<le> L"
  shows "\<bar>lerpWith rnd t a b - (a + (b - a) * rho)\<bar> \<le> 40 * (M * L) / 2 ^ 52"
    and "\<bar>lerpWith rnd t a b\<bar> \<le> 4 * (M * L)"
proof -
  define eps :: real where "eps = 1 / 2 ^ 52"
  define Q where "Q = M * L"
  define E where "E = Q * eps"
  have eps: "0 < eps" "eps \<le> 1 / 64" by (simp_all add: eps_def)
  have Q: "1 \<le> Q" "M \<le> Q" "L \<le> Q"
    using M(3) L mult_mono [of 1 M 1 L] mult_left_mono [of 1 L M] mult_right_mono [of 1 M L]
    by (simp_all add: Q_def)
  have E: "0 \<le> E" "64 * E \<le> Q"
    using Q(1) eps by (simp_all add: E_def)
  have near: "\<bar>rnd x - x\<bar> \<le> X * eps" if "1 \<le> X" "\<bar>x\<bar> \<le> X" for x X
    using rounds_near [OF r that] by (simp add: eps_def)
  have Me: "M * eps \<le> E" "L * eps \<le> E"
    using Q(2,3) eps(1) by (simp_all add: E_def)
  define g where "g = rnd (b - a)"
  define h where "h = rnd (g * t)"
  have ba: "\<bar>b - a\<bar> \<le> 2 * M" using M by linarith
  have g1: "\<bar>g - (b - a)\<bar> \<le> 2 * M * eps"
    using near [of "2 * M" "b - a"] ba M(3) by (simp add: g_def)
  have t1: "\<bar>t - rho\<bar> \<le> 12 * L * eps" using t(1) by (simp add: eps_def)
  have t2: "\<bar>t\<bar> \<le> 2 * L"
  proof -
    have "12 * L * eps \<le> L" using L eps by simp
    with t1 t(2) show ?thesis by linarith
  qed
  have "\<bar>g * t - (b - a) * rho\<bar> \<le> 2 * M * eps * (2 * L) + 2 * M * (12 * L * eps)"
    using g1 t1 t2 ba by (rule mult_near)
  also have "\<dots> = 28 * E" by (simp add: E_def Q_def)
  finally have q1: "\<bar>g * t - (b - a) * rho\<bar> \<le> 28 * E" .
  have g2: "\<bar>g\<bar> \<le> 4 * M"
  proof -
    have "2 * M * eps \<le> 2 * M" using M(3) eps by simp
    with g1 ba show ?thesis by linarith
  qed
  have "\<bar>g * t\<bar> \<le> 4 * M * (2 * L)" using g2 t2 by (rule abs_mult_le)
  then have q2: "\<bar>g * t\<bar> \<le> 8 * Q" by (simp add: Q_def)
  have "\<bar>h - g * t\<bar> \<le> 8 * Q * eps"
    using near [of "8 * Q" "g * t"] q2 Q(1) by (simp add: h_def)
  with q1 have h1: "\<bar>h - (b - a) * rho\<bar> \<le> 36 * E" by (simp add: E_def)
  have "\<bar>(b - a) * rho\<bar> \<le> 2 * M * L" using ba t(2) by (rule abs_mult_le)
  then have br: "\<bar>(b - a) * rho\<bar> \<le> 2 * Q" by (simp add: Q_def)
  with h1 E have h2: "\<bar>h\<bar> \<le> 3 * Q" by linarith
  with M(1) Q(2) have s2: "\<bar>a + h\<bar> \<le> 4 * Q" by linarith
  have "\<bar>rnd (a + h) - (a + h)\<bar> \<le> 4 * Q * eps"
    using near [of "4 * Q" "a + h"] s2 Q(1) by simp
  with h1 have f: "\<bar>rnd (a + h) - (a + (b - a) * rho)\<bar> \<le> 40 * E" by (simp add: E_def)
  have w: "lerpWith rnd t a b = rnd (a + h)"
    by (simp add: lerpWith_def h_def g_def)
  from f show "\<bar>lerpWith rnd t a b - (a + (b - a) * rho)\<bar> \<le> 40 * (M * L) / 2 ^ 52"
    unfolding w E_def Q_def eps_def by simp
  from f br M(1) Q(2) E show "\<bar>lerpWith rnd t a b\<bar> \<le> 4 * (M * L)"
    unfolding w Q_def [symmetric] by linarith
qed

subsection \<open>The layout\<close>

lemma if_Inl_Inr: "((if c then Inl a else Inr b) = Inr l) = (\<not> c \<and> b = l)"
  by simp

lemma lerp_affine:
  "lerp (x * r + x * k * (1 - r)) a b = lerp (x * k) a b + (lerp x a b - lerp (x * k) a b) * r"
  by (simp add: lerp_def algebra_simps)

lemma computeLayout_all:
  assumes "computeLayout w e = Inr l"
  shows "ratio l = blendedRatio w e
      \<and> thumbnailLeft l = lerp (ratio l)
            (real_of_int
              (leftSmall l + startIndexSmall l * singleSmall l + photoLeft_st (small (st w))))
            (real_of_int
              (leftFull l + startIndexFull l * singleFull l + photoLeft_st (full (st w))))
      \<and> photoLeft l = lerp (ratio l)
            (real_of_int (photoLeft_st (small (st w))))
            (real_of_int (photoLeft_st (full (st w))))
      \<and> left l = thumbnailLeft l - photoLeft l
      \<and> single l = lerp (ratio l) (real_of_int (singleSmall l)) (real_of_int (singleFull l))
      \<and> geometryShift l =
          (if state w = Changing
           then (lerp (ratio l)
                   (real_of_int (x1 (changingGeometryFrom w)))
                   (real_of_int (x1 (geometryFull w)))
                 - real_of_int (x1 (geometry w)),
                 lerp (ratio l)
                   (real_of_int (y1 (changingGeometryFrom w)))
                   (real_of_int (y1 (geometryFull w)))
                 - real_of_int (y1 (geometry w)))
           else (0, 0))"
  using assms
  apply (simp only: computeLayout_def Let_def if_Inl_Inr blendedRatio_def)
  apply (erule conjE)
  apply (erule subst)
  apply (simp only: Layout.simps)
  apply (cases "state w = Changing")
   apply (simp_all split del: if_split cong: if_cong)
  done

lemma computeLayout_reals:
  assumes "computeLayout w e = Inr l"
  shows computeLayout_ratio: "ratio l = blendedRatio w e"
    and computeLayout_thumbnailLeft:
      "thumbnailLeft l = lerp (ratio l)
         (real_of_int
           (leftSmall l + startIndexSmall l * singleSmall l + photoLeft_st (small (st w))))
         (real_of_int
           (leftFull l + startIndexFull l * singleFull l + photoLeft_st (full (st w))))"
    and computeLayout_photoLeft:
      "photoLeft l = lerp (ratio l)
         (real_of_int (photoLeft_st (small (st w))))
         (real_of_int (photoLeft_st (full (st w))))"
    and computeLayout_left: "left l = thumbnailLeft l - photoLeft l"
    and computeLayout_single:
      "single l = lerp (ratio l) (real_of_int (singleSmall l)) (real_of_int (singleFull l))"
    and computeLayout_geometryShift:
      "geometryShift l =
          (if state w = Changing
           then (lerp (ratio l)
                   (real_of_int (x1 (changingGeometryFrom w)))
                   (real_of_int (x1 (geometryFull w)))
                 - real_of_int (x1 (geometry w)),
                 lerp (ratio l)
                   (real_of_int (y1 (changingGeometryFrom w)))
                   (real_of_int (y1 (geometryFull w)))
                 - real_of_int (y1 (geometry w)))
           else (0, 0))"
  using computeLayout_all [OF assms] by blast+

lemma computeLayout_ints:
  assumes "computeLayout w e = Inr l"
  shows "\<exists>l'. computeLayout w e' = Inr l'
     \<and> itemsCount l' = itemsCount l \<and> smallSkip l' = smallSkip l
     \<and> leftFull l' = leftFull l \<and> leftSmall l' = leftSmall l
     \<and> singleFull l' = singleFull l \<and> singleSmall l' = singleSmall l
     \<and> startIndexSmall l' = startIndexSmall l \<and> endIndexSmall l' = endIndexSmall l
     \<and> startIndexFull l' = startIndexFull l \<and> endIndexFull l' = endIndexFull l
     \<and> expandedRatio l' = expandedRatio l"
  using assms
  apply (simp only: computeLayout_def Let_def if_Inl_Inr)
  apply (erule conjE)
  apply (erule subst)
  apply (simp only: Layout.simps simp_thms ex_simps)
  done

text \<open>
  With exact operations, the layout at any blend \<open>r\<close> has the blended ratio
  \<open>lastRatio * r + lastRatio * 0.15 * (1 - r)\<close>, and each interpolated field is the
  linear interpolation by \<open>r\<close> between its value in the layout at blend 0 and its value
  in the layout at blend 1.
\<close>

lemma computeLayout_exact_linear:
  assumes "computeLayout w 0 = Inr l0" and "computeLayout w 1 = Inr l1"
  shows "\<exists>lr. computeLayout w r = Inr lr
      \<and> ratio lr = lastRatio w * r + lastRatio w * kFrictionRatio * (1 - r)
      \<and> thumbnailLeft lr = thumbnailLeft l0 + (thumbnailLeft l1 - thumbnailLeft l0) * r
      \<and> photoLeft lr = photoLeft l0 + (photoLeft l1 - photoLeft l0) * r
      \<and> left lr = left l0 + (left l1 - left l0) * r
      \<and> single lr = single l0 + (single l1 - single l0) * r
      \<and> fst (geometryShift lr)
          = fst (geometryShift l0) + (fst (geometryShift l1) - fst (geometryShift l0)) * r
      \<and> snd (geometryShift lr)
          = snd (geometryShift l0) + (snd (geometryShift l1) - snd (geometryShift l0)) * r"
proof -
  from computeLayout_ints [OF assms(1), of r] obtain lr where
    lr: "computeLayout w r = Inr lr" and
    ir: "leftFull lr = leftFull l0" "leftSmall lr = leftSmall l0" "singleFull lr = singleFull l0"
      "singleSmall lr = singleSmall l0" "startIndexSmall lr = startIndexSmall l0"
      "startIndexFull lr = startIndexFull l0"
    by blast
  from computeLayout_ints [OF assms(1), of 1] assms(2) have
    i1: "leftFull l1 = leftFull l0" "leftSmall l1 = leftSmall l0" "singleFull l1 = singleFull l0"
      "singleSmall l1 = singleSmall l0" "startIndexSmall l1 = startIndexSmall l0"
      "startIndexFull l1 = startIndexFull l0"
    by auto
  have q0: "ratio l0 = lastRatio w * kFrictionRatio"
    by (simp add: computeLayout_ratio [OF assms(1)] blendedRatio_def)
  have q1: "ratio l1 = lastRatio w"
    by (simp add: computeLayout_ratio [OF assms(2)] blendedRatio_def)
  have qr: "ratio lr = lastRatio w * r + lastRatio w * kFrictionRatio * (1 - r)"
    by (simp add: computeLayout_ratio [OF lr] blendedRatio_def)
  have t: "thumbnailLeft lr = thumbnailLeft l0 + (thumbnailLeft l1 - thumbnailLeft l0) * r"
    unfolding computeLayout_thumbnailLeft [OF lr] computeLayout_thumbnailLeft [OF assms(1)]
      computeLayout_thumbnailLeft [OF assms(2)] ir i1 q0 q1 qr
    by (rule lerp_affine)
  have p: "photoLeft lr = photoLeft l0 + (photoLeft l1 - photoLeft l0) * r"
    unfolding computeLayout_photoLeft [OF lr] computeLayout_photoLeft [OF assms(1)]
      computeLayout_photoLeft [OF assms(2)] q0 q1 qr
    by (rule lerp_affine)
  have s: "single lr = single l0 + (single l1 - single l0) * r"
    unfolding computeLayout_single [OF lr] computeLayout_single [OF assms(1)]
      computeLayout_single [OF assms(2)] ir i1 q0 q1 qr
    by (rule lerp_affine)
  have l: "left lr = left l0 + (left l1 - left l0) * r"
    unfolding computeLayout_left [OF lr] computeLayout_left [OF assms(1)]
      computeLayout_left [OF assms(2)] t p
    by (simp add: algebra_simps)
  have g: "fst (geometryShift lr)
          = fst (geometryShift l0) + (fst (geometryShift l1) - fst (geometryShift l0)) * r
      \<and> snd (geometryShift lr)
          = snd (geometryShift l0) + (snd (geometryShift l1) - snd (geometryShift l0)) * r"
    unfolding computeLayout_geometryShift [OF lr] computeLayout_geometryShift [OF assms(1)]
      computeLayout_geometryShift [OF assms(2)] q0 q1 qr
    by (cases "state w = Changing") (simp_all add: lerp_def algebra_simps)
  show ?thesis using lr qr t p l s g by blast
qed

lemmas example_defs = exampleChanging_def exampleFull_def exampleCompact_def initial_def
  exampleStyle_def exampleItem_def exampleElement_def
lemmas layout_defs = computeLayout_def Let_def width_def rectWidth_def mkRect_def cdiv_def
  lerp_def kFrictionRatio_def kSmallThumbsShown_def

lemmas eval_defs =
  kPreloadPages_def kExpandAfterRatio_def kCollapseAfterRatio_def
  andThen_def fdiv_def toInt_def clamp_def rectHeight_def rectIsNull_def united_def
  animating_def anim_value_def anim_start_def mapFromGlobal_def fire_def checkLoadMore_def
  updateScrollMax_def resizeEvent_def setGeometry_def requestExpanded_def expandingRatio_def
  updateExpanding_def computeLayoutCurrent_def AlignRight_def AlignCenter_def
  countSmallGeometry_def updateGeometry_def setState_def checkForFullState_def
  setExpandedHeight_def setLayoutConstraints_def movedFrom_def mergeItem_def newItem_def
  showContent_def hitTest_def updateSelected_def wheelEvent_def mousePressEvent_def
  manhattanLength_def checkDragging_def mouseMoveEvent_def finishDragging_def asSizeT_def
  mouseReleaseEvent_def exampleClickable_def examplePress_def exampleWheel_def
  scrollBound_def scrollInRange_def scrollMaxExact_def

subsection \<open>The layout in \<^verbatim>\<open>float64\<close>\<close>

text \<open>
  The layout with rounding is the layout with exact operations, its interpolated fields
  set by \<open>blendWith\<close> from the rounded ratio; every field of the one is within a multiple of
  \<open>magnitude / 2 ^ 52\<close> of the field of the other.
\<close>

lemma map_sum_if:
  "map_sum f g (if c then Inl a else Inr b) = (if c then Inl (f a) else Inr (g b))"
  by simp

lemma computeLayoutWith_blend:
  "computeLayoutWith rnd w e =
     map_sum id (blendWith rnd (blendedRatioWith rnd (lastRatio w) e) w) (computeLayout w e)"
  apply (simp only: computeLayoutWith_def computeLayout_def Let_def map_sum_if id_apply)
  apply (rule if_cong [OF refl refl])
  apply (rule arg_cong [where f = Inr])
  apply (simp add: blendWith_def blendedRatioWith_def pureCompact_def pureFull_def)
  done

lemma computeLayoutWith_exact: "computeLayoutWith (\<lambda>x. x) w e = computeLayout w e"
  by (simp add: computeLayoutWith_def computeLayout_def lerpWith_def lerp_def Let_def)

lemma computeLayoutWith_Inr:
  "(computeLayoutWith rnd w e = Inr l') =
     (\<exists>l. computeLayout w e = Inr l
        \<and> l' = blendWith rnd (blendedRatioWith rnd (lastRatio w) e) w l)"
  unfolding computeLayoutWith_blend by (cases "computeLayout w e") auto

lemma blendWith_ints:
  "itemsCount (blendWith rnd r w l) = itemsCount l"
  "smallSkip (blendWith rnd r w l) = smallSkip l"
  "leftFull (blendWith rnd r w l) = leftFull l"
  "leftSmall (blendWith rnd r w l) = leftSmall l"
  "singleFull (blendWith rnd r w l) = singleFull l"
  "singleSmall (blendWith rnd r w l) = singleSmall l"
  "startIndexSmall (blendWith rnd r w l) = startIndexSmall l"
  "endIndexSmall (blendWith rnd r w l) = endIndexSmall l"
  "startIndexFull (blendWith rnd r w l) = startIndexFull l"
  "endIndexFull (blendWith rnd r w l) = endIndexFull l"
  "expandedRatio (blendWith rnd r w l) = expandedRatio l"
  by (simp_all add: blendWith_def)

lemma blendWith_extent: "extent w (blendWith rnd r w l) = extent w l"
  by (simp only: extent_def blendWith_ints)

lemma blendWith_reals:
  "ratio (blendWith rnd r w l) = r"
  "thumbnailLeft (blendWith rnd r w l) = lerpWith rnd r
     (real_of_int (leftSmall l + startIndexSmall l * singleSmall l + photoLeft_st (small (st w))))
     (real_of_int (leftFull l + startIndexFull l * singleFull l + photoLeft_st (full (st w))))"
  "photoLeft (blendWith rnd r w l) = lerpWith rnd r
     (real_of_int (photoLeft_st (small (st w)))) (real_of_int (photoLeft_st (full (st w))))"
  "left (blendWith rnd r w l) =
     rnd (thumbnailLeft (blendWith rnd r w l) - photoLeft (blendWith rnd r w l))"
  "single (blendWith rnd r w l) = lerpWith rnd r
     (real_of_int (singleSmall l)) (real_of_int (singleFull l))"
  "geometryShift (blendWith rnd r w l) =
     (if state w = Changing
      then (rnd (lerpWith rnd r
              (real_of_int (x1 (changingGeometryFrom w)))
              (real_of_int (x1 (geometryFull w)))
              - real_of_int (x1 (geometry w))),
            rnd (lerpWith rnd r
              (real_of_int (y1 (changingGeometryFrom w)))
              (real_of_int (y1 (geometryFull w)))
              - real_of_int (y1 (geometry w))))
      else (0, 0))"
  by (simp_all add: blendWith_def pureCompact_def pureFull_def)

lemma extent_ge:
  "1 \<le> extent w l"
  "\<bar>leftSmall l + startIndexSmall l * singleSmall l + photoLeft_st (small (st w))\<bar> \<le> extent w l"
  "\<bar>leftFull l + startIndexFull l * singleFull l + photoLeft_st (full (st w))\<bar> \<le> extent w l"
  "\<bar>photoLeft_st (small (st w))\<bar> \<le> extent w l"
  "\<bar>photoLeft_st (full (st w))\<bar> \<le> extent w l"
  "\<bar>singleSmall l\<bar> \<le> extent w l"
  "\<bar>singleFull l\<bar> \<le> extent w l"
  "\<bar>x1 (changingGeometryFrom w)\<bar> \<le> extent w l"
  "\<bar>x1 (geometryFull w)\<bar> \<le> extent w l"
  "\<bar>x1 (geometry w)\<bar> \<le> extent w l"
  "\<bar>y1 (changingGeometryFrom w)\<bar> \<le> extent w l"
  "\<bar>y1 (geometryFull w)\<bar> \<le> extent w l"
  "\<bar>y1 (geometry w)\<bar> \<le> extent w l"
  by (simp_all only: extent_def le_max_iff_disj order_refl simp_thms)

lemma abs_of_int_le: "\<bar>i\<bar> \<le> m \<Longrightarrow> \<bar>real_of_int i\<bar> \<le> real_of_int m"
  by (metis of_int_abs of_int_le_iff)

lemma sub_near:
  assumes r: "rounds rnd" and Q: "1 \<le> Q"
    and x: "\<bar>x - x'\<bar> \<le> ex" "\<bar>x\<bar> \<le> 4 * Q"
    and y: "\<bar>y - y'\<bar> \<le> ey" "\<bar>y\<bar> \<le> 4 * Q"
  shows "\<bar>rnd (x - y) - (x' - y')\<bar> \<le> ex + ey + 8 * Q / 2 ^ 52"
proof -
  from x(2) y(2) have "\<bar>x - y\<bar> \<le> 8 * Q" by linarith
  from rounds_near [OF r _ this] Q have "\<bar>rnd (x - y) - (x - y)\<bar> \<le> 8 * Q / 2 ^ 52"
    by simp
  with x(1) y(1) show ?thesis by linarith
qed

lemma blendWith_near:
  assumes r: "rounds rnd" and e: "0 \<le> e" "e \<le> 1" and c: "computeLayout w e = Inr l"
    and l': "l' = blendWith rnd (blendedRatioWith rnd (lastRatio w) e) w l"
  shows "\<bar>ratio l' - ratio l\<bar> \<le> 12 * max 1 \<bar>lastRatio w\<bar> / 2 ^ 52"
    and "\<bar>thumbnailLeft l' - thumbnailLeft l\<bar> \<le> 40 * magnitude w l / 2 ^ 52"
    and "\<bar>photoLeft l' - photoLeft l\<bar> \<le> 40 * magnitude w l / 2 ^ 52"
    and "\<bar>single l' - single l\<bar> \<le> 40 * magnitude w l / 2 ^ 52"
    and "\<bar>left l' - left l\<bar> \<le> 88 * magnitude w l / 2 ^ 52"
    and "\<bar>fst (geometryShift l') - fst (geometryShift l)\<bar> \<le> 48 * magnitude w l / 2 ^ 52"
    and "\<bar>snd (geometryShift l') - snd (geometryShift l)\<bar> \<le> 48 * magnitude w l / 2 ^ 52"
proof -
  define L where "L = max 1 \<bar>lastRatio w\<bar>"
  define M where "M = real_of_int (extent w l)"
  define Q where "Q = M * L"
  define t where "t = blendedRatioWith rnd (lastRatio w) e"
  have L: "\<bar>lastRatio w\<bar> \<le> L" "1 \<le> L" by (simp_all add: L_def)
  have M: "1 \<le> M" using extent_ge(1) [of w l] by (simp add: M_def)
  have Q: "magnitude w l = Q" by (simp add: magnitude_def Q_def L_def M_def)
  have Q1: "1 \<le> Q" "M \<le> Q"
    using M L(2) mult_mono [of 1 M 1 L] mult_left_mono [of 1 L M] by (simp_all add: Q_def)
  have rho: "ratio l = lastRatio w * e + lastRatio w * kFrictionRatio * (1 - e)"
    using computeLayout_ratio [OF c] by (simp add: blendedRatio_def)
  note rn = blendedRatioWith_near [OF r L e]
  have t1: "\<bar>t - ratio l\<bar> \<le> 12 * L / 2 ^ 52" and t2: "\<bar>ratio l\<bar> \<le> L"
    unfolding rho t_def using rn(1,2) by simp_all
  have lerp: "\<bar>lerpWith rnd t (real_of_int a) (real_of_int b) - lerp (ratio l) (real_of_int a) (real_of_int b)\<bar>
        \<le> 40 * Q / 2 ^ 52
      \<and> \<bar>lerpWith rnd t (real_of_int a) (real_of_int b)\<bar> \<le> 4 * Q
      \<and> \<bar>real_of_int a\<bar> \<le> M"
    if "\<bar>a\<bar> \<le> extent w l" "\<bar>b\<bar> \<le> extent w l" for a b
  proof -
    from that have ab: "\<bar>real_of_int a\<bar> \<le> M" "\<bar>real_of_int b\<bar> \<le> M"
      unfolding M_def by (simp_all add: abs_of_int_le)
    from lerpWith_near [OF r ab M L(2) t1 t2] ab(1) show ?thesis
      by (simp add: lerp_def Q_def)
  qed
  have r': "ratio l' = t" by (simp add: l' blendWith_reals t_def)
  show "\<bar>ratio l' - ratio l\<bar> \<le> 12 * max 1 \<bar>lastRatio w\<bar> / 2 ^ 52"
    unfolding r' using t1 by (simp add: L_def)
  note tl = lerp [OF extent_ge(2,3)]
  note pl = lerp [OF extent_ge(4,5)]
  note sl = lerp [OF extent_ge(6,7)]
  note gx = lerp [OF extent_ge(8,9)]
  note gy = lerp [OF extent_ge(11,12)]
  have tl': "thumbnailLeft l' = lerpWith rnd t
     (real_of_int (leftSmall l + startIndexSmall l * singleSmall l + photoLeft_st (small (st w))))
     (real_of_int (leftFull l + startIndexFull l * singleFull l + photoLeft_st (full (st w))))"
    by (simp add: l' blendWith_reals t_def)
  have pl': "photoLeft l' = lerpWith rnd t
     (real_of_int (photoLeft_st (small (st w)))) (real_of_int (photoLeft_st (full (st w))))"
    by (simp add: l' blendWith_reals t_def)
  show a: "\<bar>thumbnailLeft l' - thumbnailLeft l\<bar> \<le> 40 * magnitude w l / 2 ^ 52"
    unfolding Q tl' computeLayout_thumbnailLeft [OF c] using tl by simp
  show b: "\<bar>photoLeft l' - photoLeft l\<bar> \<le> 40 * magnitude w l / 2 ^ 52"
    unfolding Q pl' computeLayout_photoLeft [OF c] using pl by simp
  show "\<bar>single l' - single l\<bar> \<le> 40 * magnitude w l / 2 ^ 52"
    unfolding Q computeLayout_single [OF c] using sl by (simp add: l' blendWith_reals t_def)
  have "left l' = rnd (thumbnailLeft l' - photoLeft l')"
    by (simp add: l' blendWith_reals)
  moreover have "\<bar>rnd (thumbnailLeft l' - photoLeft l') - (thumbnailLeft l - photoLeft l)\<bar>
      \<le> 40 * Q / 2 ^ 52 + 40 * Q / 2 ^ 52 + 8 * Q / 2 ^ 52"
  proof (rule sub_near [OF r Q1(1)])
    show "\<bar>thumbnailLeft l' - thumbnailLeft l\<bar> \<le> 40 * Q / 2 ^ 52" using a by (simp add: Q)
    show "\<bar>photoLeft l' - photoLeft l\<bar> \<le> 40 * Q / 2 ^ 52" using b by (simp add: Q)
    show "\<bar>thumbnailLeft l'\<bar> \<le> 4 * Q" unfolding tl' using tl by simp
    show "\<bar>photoLeft l'\<bar> \<le> 4 * Q" unfolding pl' using pl by simp
  qed
  ultimately show "\<bar>left l' - left l\<bar> \<le> 88 * magnitude w l / 2 ^ 52"
    unfolding Q computeLayout_left [OF c] by simp
  have shift: "\<bar>rnd (lerpWith rnd t (real_of_int a) (real_of_int b) - real_of_int g)
        - (lerp (ratio l) (real_of_int a) (real_of_int b) - real_of_int g)\<bar> \<le> 48 * Q / 2 ^ 52"
    if "\<bar>a\<bar> \<le> extent w l" "\<bar>b\<bar> \<le> extent w l" "\<bar>g\<bar> \<le> extent w l" for a b g
  proof -
    from that(3) have "\<bar>real_of_int g\<bar> \<le> M" unfolding M_def by (simp add: abs_of_int_le)
    with Q1 have g: "\<bar>real_of_int g\<bar> \<le> 4 * Q" by linarith
    have z: "\<bar>real_of_int g - real_of_int g\<bar> \<le> 0" by simp
    from lerp [OF that(1,2)] sub_near [OF r Q1(1) _ _ z g,
        of "lerpWith rnd t (real_of_int a) (real_of_int b)"
          "lerp (ratio l) (real_of_int a) (real_of_int b)" "40 * Q / 2 ^ 52"]
    show ?thesis by simp
  qed
  show "\<bar>fst (geometryShift l') - fst (geometryShift l)\<bar> \<le> 48 * magnitude w l / 2 ^ 52"
    unfolding Q computeLayout_geometryShift [OF c]
    using shift [OF extent_ge(8,9,10)] Q1(1)
    by (simp add: l' blendWith_reals t_def)
  show "\<bar>snd (geometryShift l') - snd (geometryShift l)\<bar> \<le> 48 * magnitude w l / 2 ^ 52"
    unfolding Q computeLayout_geometryShift [OF c]
    using shift [OF extent_ge(11,12,13)] Q1(1)
    by (simp add: l' blendWith_reals t_def)
qed

lemma extent_cong:
  assumes "leftSmall l' = leftSmall l" "startIndexSmall l' = startIndexSmall l"
    "singleSmall l' = singleSmall l" "leftFull l' = leftFull l"
    "startIndexFull l' = startIndexFull l" "singleFull l' = singleFull l"
  shows "extent w l' = extent w l"
  by (simp only: extent_def assms)

lemma interpolation_near:
  fixes f f0 f1 F F0 F1 B r :: real
  assumes "0 \<le> r" and "r \<le> 1"
    and "\<bar>f - F\<bar> \<le> B" and "\<bar>f0 - F0\<bar> \<le> B" and "\<bar>f1 - F1\<bar> \<le> B"
    and "F = F0 + (F1 - F0) * r"
  shows "\<bar>f - (f0 + (f1 - f0) * r)\<bar> \<le> 2 * B"
proof -
  have "f - (f0 + (f1 - f0) * r) = (f - F) - (1 - r) * (f0 - F0) - r * (f1 - F1)"
    unfolding assms(6) by (simp add: algebra_simps)
  moreover have "\<bar>(1 - r) * (f0 - F0)\<bar> \<le> (1 - r) * B"
    unfolding abs_mult using assms(1,2,4) by (intro mult_mono) simp_all
  moreover have "\<bar>r * (f1 - F1)\<bar> \<le> r * B"
    unfolding abs_mult using assms(1,2,5) by (intro mult_mono) simp_all
  moreover have "(1 - r) * B + r * B = B"
    by (simp add: algebra_simps)
  ultimately show ?thesis using assms(3) by linarith
qed

text \<open>
  Claim C1, amended. For a fixed widget and a blend \<open>r\<close> from 0 to 1, the layout at \<open>r\<close>
  has the blended ratio \<open>lastRatio * r + lastRatio * 0.15 * (1 - r)\<close> up to rounding, within
  \<open>max 1 \<bar>lastRatio\<bar> / 2 ^ 48\<close>, and each interpolated field (\<open>thumbnailLeft\<close>,
  \<open>photoLeft\<close>, \<open>left\<close>, \<open>single\<close>, both coordinates of \<open>geometryShift\<close>) is the linear
  interpolation by \<open>r\<close> between its value in the layout at blend 0 and its value in the
  layout at blend 1 up to rounding, within \<open>magnitude / 2 ^ 44\<close>: for sizes and positions of
  at most a thousand pixels and a last observed ratio of at most 1, that is less than
  \<open>6 / 10 ^ 11\<close> of a pixel. The layouts are those of \<open>computeLayout64\<close>, the interpolation is
  the exact one.
\<close>

theorem computeLayout_linear:
  assumes "0 \<le> r" and "r \<le> 1"
    and "computeLayout64 w 0 = Inr l0" and "computeLayout64 w 1 = Inr l1"
  shows "\<exists>lr. computeLayout64 w r = Inr lr
      \<and> \<bar>ratio lr - (lastRatio w * r + lastRatio w * (15 / 100) * (1 - r))\<bar>
          \<le> max 1 \<bar>lastRatio w\<bar> / 2 ^ 48
      \<and> \<bar>thumbnailLeft lr - (thumbnailLeft l0 + (thumbnailLeft l1 - thumbnailLeft l0) * r)\<bar>
          \<le> magnitude w l0 / 2 ^ 44
      \<and> \<bar>photoLeft lr - (photoLeft l0 + (photoLeft l1 - photoLeft l0) * r)\<bar>
          \<le> magnitude w l0 / 2 ^ 44
      \<and> \<bar>left lr - (left l0 + (left l1 - left l0) * r)\<bar> \<le> magnitude w l0 / 2 ^ 44
      \<and> \<bar>single lr - (single l0 + (single l1 - single l0) * r)\<bar> \<le> magnitude w l0 / 2 ^ 44
      \<and> \<bar>fst (geometryShift lr)
          - (fst (geometryShift l0) + (fst (geometryShift l1) - fst (geometryShift l0)) * r)\<bar>
          \<le> magnitude w l0 / 2 ^ 44
      \<and> \<bar>snd (geometryShift lr)
          - (snd (geometryShift l0) + (snd (geometryShift l1) - snd (geometryShift l0)) * r)\<bar>
          \<le> magnitude w l0 / 2 ^ 44"
proof -
  let ?b = "\<lambda>e. blendWith round64 (blendedRatioWith round64 (lastRatio w) e) w"
  from assms(3) obtain x0 where x0: "computeLayout w 0 = Inr x0" and l0: "l0 = ?b 0 x0"
    unfolding computeLayout64_def computeLayoutWith_Inr by blast
  from assms(4) obtain x1 where x1: "computeLayout w 1 = Inr x1" and l1: "l1 = ?b 1 x1"
    unfolding computeLayout64_def computeLayoutWith_Inr by blast
  from computeLayout_exact_linear [OF x0 x1, of r] obtain xr where
    xr: "computeLayout w r = Inr xr"
    and q: "ratio xr = lastRatio w * r + lastRatio w * kFrictionRatio * (1 - r)"
    and t: "thumbnailLeft xr = thumbnailLeft x0 + (thumbnailLeft x1 - thumbnailLeft x0) * r"
    and p: "photoLeft xr = photoLeft x0 + (photoLeft x1 - photoLeft x0) * r"
    and l: "left xr = left x0 + (left x1 - left x0) * r"
    and s: "single xr = single x0 + (single x1 - single x0) * r"
    and g1: "fst (geometryShift xr)
          = fst (geometryShift x0) + (fst (geometryShift x1) - fst (geometryShift x0)) * r"
    and g2: "snd (geometryShift xr)
          = snd (geometryShift x0) + (snd (geometryShift x1) - snd (geometryShift x0)) * r"
    by blast
  define lr where "lr = ?b r xr"
  have c: "computeLayout64 w r = Inr lr"
    unfolding computeLayout64_def computeLayoutWith_Inr lr_def using xr by blast
  from computeLayout_ints [OF x0, of r] xr have "extent w xr = extent w x0"
    by (intro extent_cong) auto
  moreover from computeLayout_ints [OF x0, of 1] x1 have "extent w x1 = extent w x0"
    by (intro extent_cong) auto
  moreover have "extent w l0 = extent w x0"
    unfolding l0 by (rule blendWith_extent)
  ultimately have m: "magnitude w xr = magnitude w l0" "magnitude w x1 = magnitude w l0"
    "magnitude w x0 = magnitude w l0"
    by (simp_all add: magnitude_def)
  have z: "(0::real) \<le> 0" "(0::real) \<le> 1" "(1::real) \<le> 1" by simp_all
  note n0 = blendWith_near [OF rounds_round64 z(1,2) x0 l0, unfolded m]
  note n1 = blendWith_near [OF rounds_round64 z(2,3) x1 l1, unfolded m]
  note nr = blendWith_near [OF rounds_round64 assms(1,2) xr lr_def, unfolded m]
  have pos: "0 \<le> magnitude w l0" "1 \<le> max 1 \<bar>lastRatio w\<bar>"
    using extent_ge(1) [of w l0] by (simp_all add: magnitude_def)
  have b: "2 * (88 * magnitude w l0 / 2 ^ 52) \<le> magnitude w l0 / 2 ^ 44"
    "88 * magnitude w l0 / 2 ^ 52 \<ge> 40 * magnitude w l0 / 2 ^ 52"
    "88 * magnitude w l0 / 2 ^ 52 \<ge> 48 * magnitude w l0 / 2 ^ 52"
    using pos(1) by simp_all
  have w: "\<bar>f - (f0 + (f1 - f0) * r)\<bar> \<le> magnitude w l0 / 2 ^ 44"
    if "\<bar>f - F\<bar> \<le> 88 * magnitude w l0 / 2 ^ 52"
      "\<bar>f0 - F0\<bar> \<le> 88 * magnitude w l0 / 2 ^ 52"
      "\<bar>f1 - F1\<bar> \<le> 88 * magnitude w l0 / 2 ^ 52"
      "F = F0 + (F1 - F0) * r" for f f0 f1 F F0 F1 :: real
    using interpolation_near [OF assms(1,2) that] b(1) by linarith
  have "\<bar>ratio lr - (lastRatio w * r + lastRatio w * (15 / 100) * (1 - r))\<bar>
      \<le> max 1 \<bar>lastRatio w\<bar> / 2 ^ 48"
    using nr(1) pos(2) unfolding q kFrictionRatio_def by simp
  moreover have "\<bar>thumbnailLeft lr - (thumbnailLeft l0 + (thumbnailLeft l1 - thumbnailLeft l0) * r)\<bar>
      \<le> magnitude w l0 / 2 ^ 44"
    using nr(2) n0(2) n1(2) b(2) by (intro w [OF _ _ _ t]) linarith+
  moreover have "\<bar>photoLeft lr - (photoLeft l0 + (photoLeft l1 - photoLeft l0) * r)\<bar>
      \<le> magnitude w l0 / 2 ^ 44"
    using nr(3) n0(3) n1(3) b(2) by (intro w [OF _ _ _ p]) linarith+
  moreover have "\<bar>single lr - (single l0 + (single l1 - single l0) * r)\<bar>
      \<le> magnitude w l0 / 2 ^ 44"
    using nr(4) n0(4) n1(4) b(2) by (intro w [OF _ _ _ s]) linarith+
  moreover have "\<bar>left lr - (left l0 + (left l1 - left l0) * r)\<bar> \<le> magnitude w l0 / 2 ^ 44"
    using nr(5) n0(5) n1(5) by (intro w [OF _ _ _ l])
  moreover have "\<bar>fst (geometryShift lr)
          - (fst (geometryShift l0) + (fst (geometryShift l1) - fst (geometryShift l0)) * r)\<bar>
          \<le> magnitude w l0 / 2 ^ 44"
    using nr(6) n0(6) n1(6) b(3) by (intro w [OF _ _ _ g1]) linarith+
  moreover have "\<bar>snd (geometryShift lr)
          - (snd (geometryShift l0) + (snd (geometryShift l1) - snd (geometryShift l0)) * r)\<bar>
          \<le> magnitude w l0 / 2 ^ 44"
    using nr(7) n0(7) n1(7) b(3) by (intro w [OF _ _ _ g2]) linarith+
  ultimately show ?thesis using c by blast
qed

lemmas float_defs = round64_def roundEven_def bits.simps ilog2_def

lemma round64_examples:
  "round64 (3 / 5) = 5404319552844595 / 9007199254740992"
  "round64 kFrictionRatio = 5404319552844595 / 36028797018963968"
  by (simp_all add: float_defs kFrictionRatio_def)

lemma round64_ties:
  "round64 (1 / 10) = 3602879701896397 / 36028797018963968"
  "round64 (- (1 / 3)) = - (6004799503160661 / 18014398509481984)"
  "round64 (2 ^ 53 + 1) = 2 ^ 53"
  "round64 (2 ^ 53 + 3) = 2 ^ 53 + 4"
  by (simp_all add: float_defs)

lemma blendedRatio64_examples:
  "blendedRatioWith round64 (5404319552844595 / 9007199254740992) 0
     = 3242591731706757 / 36028797018963968"
  "blendedRatioWith round64 (5404319552844595 / 9007199254740992) (1 / 2)
     = 1553741871442821 / 4503599627370496"
  "blendedRatioWith round64 (5404319552844595 / 9007199254740992) 1
     = 5404319552844595 / 9007199254740992"
  "blendedRatioWith round64 1 0 = 5404319552844595 / 36028797018963968"
  "blendedRatioWith round64 1 1 = 1"
  "blendedRatioWith round64 0 0 = 0"
  "blendedRatioWith round64 0 1 = 0"
  by (simp_all add: blendedRatioWith_def round64_examples) (simp_all add: float_defs)

lemmas layout64_defs = computeLayout64_def computeLayoutWith_blend blendWith_def
  pureCompact_def pureFull_def lerpWith_def exampleChanging64_def round64_examples
  blendedRatio64_examples

lemma computeLayout64_exampleChanging:
  "computeLayout64 exampleChanging64 0 =
     Inr \<lparr>itemsCount = 10,
        geometryShift = (5122844576133939 / 281474976710656, 5122844576133939 / 1125899906842624),
        expandedRatio = 5404319552844595 / 9007199254740992,
        ratio = 3242591731706757 / 36028797018963968,
        thumbnailLeft = 2308094809027379 / 281474976710656,
        photoLeft = 5314247560297185 / 2251799813685248,
        left = 1643813863990231 / 281474976710656,
        single = 695946879917097 / 35184372088832,
        smallSkip = 0, leftFull = - 190, leftSmall = 8, singleFull = 58,
        singleSmall = 16, startIndexSmall = 0, endIndexSmall = 3, startIndexFull = 3,
        endIndexFull = 7\<rparr>"
  "computeLayout64 exampleChanging64 (1 / 2) =
     Inr \<lparr>itemsCount = 10,
        geometryShift = (1843661097454797 / 140737488355328, 1843661097454797 / 562949953421312),
        expandedRatio = 5404319552844595 / 9007199254740992,
        ratio = 1553741871442821 / 4503599627370496,
        thumbnailLeft = 3490289711212135 / 1125899906842624,
        photoLeft = 3805541685128069 / 1125899906842624,
        left = - (157625986957967 / 562949953421312),
        single = 8582172039907901 / 281474976710656,
        smallSkip = 0, leftFull = - 190, leftSmall = 8, singleFull = 58,
        singleSmall = 16, startIndexSmall = 0, endIndexSmall = 3, startIndexFull = 3,
        endIndexFull = 7\<rparr>"
  "computeLayout64 exampleChanging64 1 =
     Inr \<lparr>itemsCount = 10, geometryShift = (8, 2),
        expandedRatio = 5404319552844595 / 9007199254740992,
        ratio = 5404319552844595 / 9007199254740992,
        thumbnailLeft = - 2,
        photoLeft = 2476979795053773 / 562949953421312,
        left = - (3602879701896397 / 562949953421312),
        single = 2899192260119757 / 70368744177664,
        smallSkip = 0, leftFull = - 190, leftSmall = 8, singleFull = 58,
        singleSmall = 16, startIndexSmall = 0, endIndexSmall = 3, startIndexFull = 3,
        endIndexFull = 7\<rparr>"
  by (simp_all add: layout64_defs example_defs layout_defs) (simp_all add: float_defs)

lemma computeLayout64_exampleFull:
  "computeLayout64 exampleFull 0 =
     Inr \<lparr>itemsCount = 10, geometryShift = (0, 0), expandedRatio = 1,
        ratio = 5404319552844595 / 36028797018963968,
        thumbnailLeft = 7,
        photoLeft = 5854679515581645 / 2251799813685248,
        left = 2476979795053773 / 562949953421312,
        single = 6276891980647629 / 281474976710656,
        smallSkip = 0, leftFull = - 190, leftSmall = 8, singleFull = 58,
        singleSmall = 16, startIndexSmall = 0, endIndexSmall = 3, startIndexFull = 3,
        endIndexFull = 7\<rparr>"
  "computeLayout64 exampleFull 1 =
     Inr \<lparr>itemsCount = 10, geometryShift = (0, 0), expandedRatio = 1,
        ratio = 1, thumbnailLeft = - 10, photoLeft = 6, left = - 16,
        single = 58, smallSkip = 0, leftFull = - 190, leftSmall = 8, singleFull = 58,
        singleSmall = 16, startIndexSmall = 0, endIndexSmall = 3, startIndexFull = 3,
        endIndexFull = 7\<rparr>"
  by (simp_all add: layout64_defs example_defs layout_defs) (simp_all add: float_defs)

lemma computeLayout64_exampleCompact:
  "computeLayout64 exampleCompact 0 =
     Inr \<lparr>itemsCount = 3, geometryShift = (0, 0), expandedRatio = 0, ratio = 0,
        thumbnailLeft = 10, photoLeft = 2, left = 8, single = 16,
        smallSkip = 0, leftFull = 10, leftSmall = 8, singleFull = 58,
        singleSmall = 16, startIndexSmall = 0, endIndexSmall = 3,
        startIndexFull = 0, endIndexFull = 2\<rparr>"
  "computeLayout64 exampleCompact 1 =
     Inr \<lparr>itemsCount = 3, geometryShift = (0, 0), expandedRatio = 0, ratio = 0,
        thumbnailLeft = 10, photoLeft = 2, left = 8, single = 16,
        smallSkip = 0, leftFull = 10, leftSmall = 8, singleFull = 58,
        singleSmall = 16, startIndexSmall = 0, endIndexSmall = 3,
        startIndexFull = 0, endIndexFull = 2\<rparr>"
  by (simp_all add: layout64_defs example_defs layout_defs) (simp_all add: float_defs)

lemma magnitude_examples:
  "magnitude exampleChanging64 l = 58" if "computeLayout64 exampleChanging64 0 = Inr l"
  using that unfolding computeLayout64_exampleChanging
  by (auto simp add: magnitude_def extent_def exampleChanging64_def example_defs mkRect_def
      round64_examples)

text \<open>
  The widget in the state \<^verbatim>\<open>Changing\<close> with the last observed ratio 0.6, at the blend one
  half: its extent is 58, and \<open>thumbnailLeft\<close> is 8.2, 3.1000000000000005 and -2 at the
  blends 0, one half and 1.
\<close>

theorem computeLayout_linear_witness:
  "\<exists>l0 l1 lr. computeLayout64 exampleChanging64 0 = Inr l0
     \<and> computeLayout64 exampleChanging64 1 = Inr l1
     \<and> computeLayout64 exampleChanging64 (1 / 2) = Inr lr
     \<and> magnitude exampleChanging64 l0 = 58
     \<and> thumbnailLeft l0 = 2308094809027379 / 281474976710656 \<and> thumbnailLeft l1 = - 2
     \<and> thumbnailLeft lr = 3490289711212135 / 1125899906842624
     \<and> \<bar>ratio lr - (lastRatio exampleChanging64 * (1 / 2)
           + lastRatio exampleChanging64 * (15 / 100) * (1 - 1 / 2))\<bar> \<le> 1 / 2 ^ 48
     \<and> \<bar>thumbnailLeft lr - (thumbnailLeft l0 + (thumbnailLeft l1 - thumbnailLeft l0) * (1 / 2))\<bar>
         \<le> 58 / 2 ^ 44
     \<and> \<bar>photoLeft lr - (photoLeft l0 + (photoLeft l1 - photoLeft l0) * (1 / 2))\<bar> \<le> 58 / 2 ^ 44
     \<and> \<bar>left lr - (left l0 + (left l1 - left l0) * (1 / 2))\<bar> \<le> 58 / 2 ^ 44
     \<and> \<bar>single lr - (single l0 + (single l1 - single l0) * (1 / 2))\<bar> \<le> 58 / 2 ^ 44
     \<and> \<bar>fst (geometryShift lr)
         - (fst (geometryShift l0) + (fst (geometryShift l1) - fst (geometryShift l0)) * (1 / 2))\<bar>
         \<le> 58 / 2 ^ 44
     \<and> \<bar>snd (geometryShift lr)
         - (snd (geometryShift l0) + (snd (geometryShift l1) - snd (geometryShift l0)) * (1 / 2))\<bar>
         \<le> 58 / 2 ^ 44"
proof -
  note e = computeLayout64_exampleChanging
  define l0 where "l0 =
     \<lparr>itemsCount = 10,
        geometryShift = (5122844576133939 / 281474976710656, 5122844576133939 / 1125899906842624),
        expandedRatio = 5404319552844595 / 9007199254740992,
        ratio = 3242591731706757 / 36028797018963968,
        thumbnailLeft = 2308094809027379 / 281474976710656,
        photoLeft = 5314247560297185 / 2251799813685248,
        left = 1643813863990231 / 281474976710656,
        single = 695946879917097 / 35184372088832,
        smallSkip = 0, leftFull = - 190, leftSmall = 8, singleFull = 58,
        singleSmall = 16, startIndexSmall = 0, endIndexSmall = 3, startIndexFull = 3,
        endIndexFull = 7\<rparr>"
  define l1 where "l1 =
     \<lparr>itemsCount = 10, geometryShift = (8, 2),
        expandedRatio = 5404319552844595 / 9007199254740992,
        ratio = 5404319552844595 / 9007199254740992,
        thumbnailLeft = - 2,
        photoLeft = 2476979795053773 / 562949953421312,
        left = - (3602879701896397 / 562949953421312),
        single = 2899192260119757 / 70368744177664,
        smallSkip = 0, leftFull = - 190, leftSmall = 8, singleFull = 58,
        singleSmall = 16, startIndexSmall = 0, endIndexSmall = 3, startIndexFull = 3,
        endIndexFull = 7\<rparr>"
  have e0: "computeLayout64 exampleChanging64 0 = Inr l0"
    unfolding l0_def by (rule e(1))
  have e1: "computeLayout64 exampleChanging64 1 = Inr l1"
    unfolding l1_def by (rule e(3))
  have h: "(0::real) \<le> 1 / 2" "(1::real) / 2 \<le> 1" by simp_all
  have m: "max 1 \<bar>lastRatio exampleChanging64\<bar> = 1" "magnitude exampleChanging64 l0 = 58"
    using magnitude_examples [OF e0] by (simp_all add: exampleChanging64_def round64_examples)
  from computeLayout_linear [OF h e0 e1, unfolded m] obtain lr where
    lr: "computeLayout64 exampleChanging64 (1 / 2) = Inr lr"
    and b: "\<bar>ratio lr - (lastRatio exampleChanging64 * (1 / 2)
           + lastRatio exampleChanging64 * (15 / 100) * (1 - 1 / 2))\<bar> \<le> 1 / 2 ^ 48"
     "\<bar>thumbnailLeft lr - (thumbnailLeft l0 + (thumbnailLeft l1 - thumbnailLeft l0) * (1 / 2))\<bar>
         \<le> 58 / 2 ^ 44"
     "\<bar>photoLeft lr - (photoLeft l0 + (photoLeft l1 - photoLeft l0) * (1 / 2))\<bar> \<le> 58 / 2 ^ 44"
     "\<bar>left lr - (left l0 + (left l1 - left l0) * (1 / 2))\<bar> \<le> 58 / 2 ^ 44"
     "\<bar>single lr - (single l0 + (single l1 - single l0) * (1 / 2))\<bar> \<le> 58 / 2 ^ 44"
     "\<bar>fst (geometryShift lr)
         - (fst (geometryShift l0) + (fst (geometryShift l1) - fst (geometryShift l0)) * (1 / 2))\<bar>
         \<le> 58 / 2 ^ 44"
     "\<bar>snd (geometryShift lr)
         - (snd (geometryShift l0) + (snd (geometryShift l1) - snd (geometryShift l0)) * (1 / 2))\<bar>
         \<le> 58 / 2 ^ 44"
    by blast
  have v: "thumbnailLeft l0 = 2308094809027379 / 281474976710656" "thumbnailLeft l1 = - 2"
    "thumbnailLeft lr = 3490289711212135 / 1125899906842624"
    using lr unfolding e(2) by (auto simp add: l0_def l1_def)
  show ?thesis
    by (rule exI [of _ l0], rule exI [of _ l1], rule exI [of _ lr])
      (intro conjI e0 e1 lr m(2) v b)
qed

text \<open>
  Claim C1 as stated fails: the fields are not equal to the interpolation. On that widget
  \<open>thumbnailLeft\<close> at the blend one half is the \<^verbatim>\<open>float64\<close> 3.1000000000000005; the
  interpolation by one half between its values at the blends 0 and 1 is another real, and
  computed in \<^verbatim>\<open>float64\<close> it is 3.0999999999999996.
\<close>

theorem computeLayout_linear_counterexample:
  "map_sum id thumbnailLeft (computeLayout64 exampleChanging64 0)
     = Inr (2308094809027379 / 281474976710656)
   \<and> map_sum id thumbnailLeft (computeLayout64 exampleChanging64 (1 / 2))
     = Inr (3490289711212135 / 1125899906842624)
   \<and> map_sum id thumbnailLeft (computeLayout64 exampleChanging64 1) = Inr (- 2)
   \<and> (3490289711212135 / 1125899906842624 :: real)
     \<noteq> 2308094809027379 / 281474976710656
       + (- 2 - 2308094809027379 / 281474976710656) * (1 / 2)
   \<and> round64 (2308094809027379 / 281474976710656
       + round64 (round64 (- 2 - 2308094809027379 / 281474976710656) * (1 / 2)))
     = 3490289711212134 / 1125899906842624
   \<and> (3490289711212135 / 1125899906842624 :: real) \<noteq> 3490289711212134 / 1125899906842624"
  by (simp add: computeLayout64_exampleChanging) (simp add: float_defs)

lemma blendWith_idem: "blendWith rnd r w (blendWith rnd r w l) = blendWith rnd r w l"
  by (simp add: blendWith_def pureCompact_def pureFull_def)

lemma blendedRatio64_0:
  "blendedRatioWith round64 lr 0 = round64 (lr * round64 kFrictionRatio)"
  by (simp add: blendedRatioWith_def round64_idem)

lemma blendedRatio64_1: "blendedRatioWith round64 lr 1 = round64 lr"
  by (simp add: blendedRatioWith_def round64_idem)

lemma round64_int_diff:
  assumes "\<bar>a\<bar> \<le> 2 ^ 52" and "\<bar>b\<bar> \<le> 2 ^ 52"
  shows "round64 (real_of_int a - real_of_int b) = real_of_int a - real_of_int b"
proof -
  from assms have "\<bar>a - b\<bar> \<le> 2 ^ 53" by simp
  from round64_of_int [OF this] show ?thesis by simp
qed

lemma lerp64_0:
  assumes "\<bar>a\<bar> \<le> 2 ^ 52"
  shows "lerpWith round64 0 (real_of_int a) y = real_of_int a"
proof -
  from assms have "\<bar>a\<bar> \<le> 2 ^ 53" by simp
  from round64_of_int [OF this] show ?thesis by (simp add: lerpWith_def)
qed

lemma lerp64_1:
  assumes "\<bar>a\<bar> \<le> 2 ^ 52" and "\<bar>b\<bar> \<le> 2 ^ 52"
  shows "lerpWith round64 1 (real_of_int a) (real_of_int b) = real_of_int b"
proof -
  from assms(2) have "\<bar>b\<bar> \<le> 2 ^ 53" by simp
  from round64_of_int [OF this] round64_int_diff [OF assms(2,1)] show ?thesis
    by (simp add: lerpWith_def)
qed

lemma extent_small:
  assumes "extent w l \<le> 2 ^ 31"
  shows "\<bar>leftSmall l + startIndexSmall l * singleSmall l + photoLeft_st (small (st w))\<bar> \<le> 2 ^ 52"
    and "\<bar>leftFull l + startIndexFull l * singleFull l + photoLeft_st (full (st w))\<bar> \<le> 2 ^ 52"
    and "\<bar>photoLeft_st (small (st w))\<bar> \<le> 2 ^ 52"
    and "\<bar>photoLeft_st (full (st w))\<bar> \<le> 2 ^ 52"
    and "\<bar>singleSmall l\<bar> \<le> 2 ^ 52"
    and "\<bar>singleFull l\<bar> \<le> 2 ^ 52"
    and "\<bar>x1 (changingGeometryFrom w)\<bar> \<le> 2 ^ 52"
    and "\<bar>x1 (geometryFull w)\<bar> \<le> 2 ^ 52"
    and "\<bar>x1 (geometry w)\<bar> \<le> 2 ^ 52"
    and "\<bar>y1 (changingGeometryFrom w)\<bar> \<le> 2 ^ 52"
    and "\<bar>y1 (geometryFull w)\<bar> \<le> 2 ^ 52"
    and "\<bar>y1 (geometry w)\<bar> \<le> 2 ^ 52"
proof -
  have b: "\<bar>x\<bar> \<le> 2 ^ 52" if "\<bar>x\<bar> \<le> extent w l" for x :: int
  proof -
    have "(2::int) ^ 31 \<le> 2 ^ 52" by simp
    with that assms show ?thesis by (rule order_trans [OF order_trans])
  qed
  note g = extent_ge(2-13) [where w = w and l = l]
  show "\<bar>leftSmall l + startIndexSmall l * singleSmall l + photoLeft_st (small (st w))\<bar> \<le> 2 ^ 52"
    and "\<bar>leftFull l + startIndexFull l * singleFull l + photoLeft_st (full (st w))\<bar> \<le> 2 ^ 52"
    and "\<bar>photoLeft_st (small (st w))\<bar> \<le> 2 ^ 52"
    and "\<bar>photoLeft_st (full (st w))\<bar> \<le> 2 ^ 52"
    and "\<bar>singleSmall l\<bar> \<le> 2 ^ 52"
    and "\<bar>singleFull l\<bar> \<le> 2 ^ 52"
    and "\<bar>x1 (changingGeometryFrom w)\<bar> \<le> 2 ^ 52"
    and "\<bar>x1 (geometryFull w)\<bar> \<le> 2 ^ 52"
    and "\<bar>x1 (geometry w)\<bar> \<le> 2 ^ 52"
    and "\<bar>y1 (changingGeometryFrom w)\<bar> \<le> 2 ^ 52"
    and "\<bar>y1 (geometryFull w)\<bar> \<le> 2 ^ 52"
    and "\<bar>y1 (geometry w)\<bar> \<le> 2 ^ 52"
    by (rule b, rule g)+
qed

lemma blend64_0_compact:
  assumes "extent w l \<le> 2 ^ 31"
  shows "blendWith round64 0 w l = pureCompact w (l\<lparr>ratio := 0\<rparr>)"
proof -
  note s = extent_small [OF assms]
  let ?b = "blendWith round64 0 w l"
  let ?c = "pureCompact w (l\<lparr>ratio := 0\<rparr>)"
  have t: "thumbnailLeft ?b = real_of_int
      (leftSmall l + startIndexSmall l * singleSmall l + photoLeft_st (small (st w)))"
    by (simp only: blendWith_reals lerp64_0 [OF s(1)])
  have p: "photoLeft ?b = real_of_int (photoLeft_st (small (st w)))"
    by (simp only: blendWith_reals lerp64_0 [OF s(3)])
  have "left ?b = round64 (thumbnailLeft ?b - photoLeft ?b)"
    by (simp only: blendWith_reals)
  also have "\<dots> = real_of_int
      (leftSmall l + startIndexSmall l * singleSmall l + photoLeft_st (small (st w)))
      - real_of_int (photoLeft_st (small (st w)))"
    unfolding t p by (rule round64_int_diff [OF s(1) s(3)])
  finally have ll: "left ?b = left ?c"
    by (simp add: pureCompact_def)
  have "geometryShift ?b =
      (if state w = Changing
       then (real_of_int (x1 (changingGeometryFrom w)) - real_of_int (x1 (geometry w)),
             real_of_int (y1 (changingGeometryFrom w)) - real_of_int (y1 (geometry w)))
       else (0, 0))"
    by (simp only: blendWith_reals lerp64_0 [OF s(7)] lerp64_0 [OF s(10)]
        round64_int_diff [OF s(7) s(9)] round64_int_diff [OF s(10) s(12)])
  then have gs: "geometryShift ?b = geometryShift ?c"
    by (simp add: pureCompact_def)
  from t have tl: "thumbnailLeft ?b = thumbnailLeft ?c"
    by (simp add: pureCompact_def)
  from p have pl: "photoLeft ?b = photoLeft ?c"
    by (simp add: pureCompact_def)
  have "single ?b = real_of_int (singleSmall l)"
    by (simp only: blendWith_reals lerp64_0 [OF s(5)])
  then have sl: "single ?b = single ?c"
    by (simp add: pureCompact_def)
  have rest: "itemsCount ?b = itemsCount ?c" "expandedRatio ?b = expandedRatio ?c"
    "ratio ?b = ratio ?c" "smallSkip ?b = smallSkip ?c" "leftFull ?b = leftFull ?c"
    "leftSmall ?b = leftSmall ?c" "singleFull ?b = singleFull ?c"
    "singleSmall ?b = singleSmall ?c" "startIndexSmall ?b = startIndexSmall ?c"
    "endIndexSmall ?b = endIndexSmall ?c" "startIndexFull ?b = startIndexFull ?c"
    "endIndexFull ?b = endIndexFull ?c" "Layout.more ?b = Layout.more ?c"
    by (simp_all add: blendWith_def pureCompact_def)
  show ?thesis
    by (rule Layout.equality) (fact gs tl pl sl ll rest)+
qed

lemma blend64_1_full:
  assumes "extent w l \<le> 2 ^ 31"
  shows "blendWith round64 1 w l = pureFull w (l\<lparr>ratio := 1\<rparr>)"
proof -
  note s = extent_small [OF assms]
  let ?b = "blendWith round64 1 w l"
  let ?c = "pureFull w (l\<lparr>ratio := 1\<rparr>)"
  have t: "thumbnailLeft ?b = real_of_int
      (leftFull l + startIndexFull l * singleFull l + photoLeft_st (full (st w)))"
    by (simp only: blendWith_reals lerp64_1 [OF s(1) s(2)])
  have p: "photoLeft ?b = real_of_int (photoLeft_st (full (st w)))"
    by (simp only: blendWith_reals lerp64_1 [OF s(3) s(4)])
  have "left ?b = round64 (thumbnailLeft ?b - photoLeft ?b)"
    by (simp only: blendWith_reals)
  also have "\<dots> = real_of_int
      (leftFull l + startIndexFull l * singleFull l + photoLeft_st (full (st w)))
      - real_of_int (photoLeft_st (full (st w)))"
    unfolding t p by (rule round64_int_diff [OF s(2) s(4)])
  finally have ll: "left ?b = left ?c"
    by (simp add: pureFull_def)
  have "geometryShift ?b =
      (if state w = Changing
       then (real_of_int (x1 (geometryFull w)) - real_of_int (x1 (geometry w)),
             real_of_int (y1 (geometryFull w)) - real_of_int (y1 (geometry w)))
       else (0, 0))"
    by (simp only: blendWith_reals lerp64_1 [OF s(7) s(8)] lerp64_1 [OF s(10) s(11)]
        round64_int_diff [OF s(8) s(9)] round64_int_diff [OF s(11) s(12)])
  then have gs: "geometryShift ?b = geometryShift ?c"
    by (simp add: pureFull_def)
  from t have tl: "thumbnailLeft ?b = thumbnailLeft ?c"
    by (simp add: pureFull_def)
  from p have pl: "photoLeft ?b = photoLeft ?c"
    by (simp add: pureFull_def)
  have "single ?b = real_of_int (singleFull l)"
    by (simp only: blendWith_reals lerp64_1 [OF s(5) s(6)])
  then have sl: "single ?b = single ?c"
    by (simp add: pureFull_def)
  have rest: "itemsCount ?b = itemsCount ?c" "expandedRatio ?b = expandedRatio ?c"
    "ratio ?b = ratio ?c" "smallSkip ?b = smallSkip ?c" "leftFull ?b = leftFull ?c"
    "leftSmall ?b = leftSmall ?c" "singleFull ?b = singleFull ?c"
    "singleSmall ?b = singleSmall ?c" "startIndexSmall ?b = startIndexSmall ?c"
    "endIndexSmall ?b = endIndexSmall ?c" "startIndexFull ?b = startIndexFull ?c"
    "endIndexFull ?b = endIndexFull ?c" "Layout.more ?b = Layout.more ?c"
    by (simp_all add: blendWith_def pureFull_def)
  show ?thesis
    by (rule Layout.equality) (fact gs tl pl sl ll rest)+
qed

lemma pure_blendWith:
  "pureCompact w (blendWith rnd r w l) = pureCompact w (l\<lparr>ratio := r\<rparr>)"
  "pureFull w (blendWith rnd r w l) = pureFull w (l\<lparr>ratio := r\<rparr>)"
  by (simp_all add: blendWith_def pureCompact_def pureFull_def)

lemma pure_idem:
  "pureCompact w (pureCompact w l) = pureCompact w l"
  "pureFull w (pureFull w l) = pureFull w l"
  by (simp_all add: pureCompact_def pureFull_def)

text \<open>
  Claim C2, amended. The layout at blend 0 has the ratio \<open>lastRatio * 0.15\<close> and the layout
  at blend 1 has the ratio \<open>lastRatio\<close>, as \<^verbatim>\<open>float64\<close>. In each, \<open>thumbnailLeft\<close>,
  \<open>photoLeft\<close> and \<open>single\<close> are \<open>compact + (full - compact) * ratio\<close> for the values of
  the two presentations that the layout carries, \<open>left\<close> is \<open>thumbnailLeft - photoLeft\<close>, and
  a coordinate of \<open>geometryShift\<close> is such a blend of the two origins less the origin of the
  widget, every operation rounded (\<open>blendWith round64\<close>). So, for sizes of 32 bits, both are
  the pure compact layout when the last observed ratio is 0, and the layout at blend 1 is
  the pure full layout when the last observed ratio is 1.
\<close>

theorem computeLayout_endpoints:
  assumes "computeLayout64 w 0 = Inr l0" and "computeLayout64 w 1 = Inr l1"
  shows "ratio l0 = round64 (lastRatio w * round64 kFrictionRatio)
    \<and> ratio l1 = round64 (lastRatio w)
    \<and> l0 = blendWith round64 (ratio l0) w l0
    \<and> l1 = blendWith round64 (ratio l1) w l1
    \<and> (lastRatio w = 0 \<and> extent w l0 \<le> 2 ^ 31
        \<longrightarrow> l0 = pureCompact w l0 \<and> l1 = pureCompact w l1)
    \<and> (lastRatio w = 1 \<and> extent w l1 \<le> 2 ^ 31 \<longrightarrow> l1 = pureFull w l1)"
proof -
  let ?r = "\<lambda>e. blendedRatioWith round64 (lastRatio w) e"
  from assms(1) obtain x0 where x0: "computeLayout w 0 = Inr x0"
    and l0: "l0 = blendWith round64 (?r 0) w x0"
    unfolding computeLayout64_def computeLayoutWith_Inr by blast
  from assms(2) obtain x1 where x1: "computeLayout w 1 = Inr x1"
    and l1: "l1 = blendWith round64 (?r 1) w x1"
    unfolding computeLayout64_def computeLayoutWith_Inr by blast
  have q0: "ratio l0 = round64 (lastRatio w * round64 kFrictionRatio)"
    unfolding l0 by (simp add: blendWith_reals blendedRatio64_0)
  have q1: "ratio l1 = round64 (lastRatio w)"
    unfolding l1 by (simp add: blendWith_reals blendedRatio64_1)
  have e0: "l0 = blendWith round64 (ratio l0) w l0"
    unfolding l0 by (simp add: blendWith_reals blendWith_idem)
  have e1: "l1 = blendWith round64 (ratio l1) w l1"
    unfolding l1 by (simp add: blendWith_reals blendWith_idem)
  from computeLayout_ints [OF x0, of 1] x1 have "extent w x1 = extent w x0"
    by (intro extent_cong) auto
  then have x: "extent w l1 = extent w l0"
    unfolding l0 l1 by (simp add: blendWith_extent)
  have z: "l0 = pureCompact w l0 \<and> l1 = pureCompact w l1"
    if "lastRatio w = 0" "extent w l0 \<le> 2 ^ 31"
  proof
    from that(1) have r: "?r 0 = 0" "?r 1 = 0"
      by (simp_all add: blendedRatio64_0 blendedRatio64_1)
    from that(2) have "extent w x0 \<le> 2 ^ 31" "extent w x1 \<le> 2 ^ 31"
      using x unfolding l0 l1 by (simp_all add: blendWith_extent)
    then show "l0 = pureCompact w l0" "l1 = pureCompact w l1"
      unfolding l0 l1 r by (simp_all add: pure_blendWith blend64_0_compact pure_idem)
  qed
  have o: "l1 = pureFull w l1" if "lastRatio w = 1" "extent w l1 \<le> 2 ^ 31"
  proof -
    from that(1) have r: "?r 1 = 1"
      by (simp add: blendedRatio64_1)
    from that(2) have "extent w x1 \<le> 2 ^ 31"
      unfolding l1 by (simp add: blendWith_extent)
    then show ?thesis
      unfolding l1 r by (simp add: pure_blendWith blend64_1_full pure_idem)
  qed
  from q0 q1 e0 e1 z o show ?thesis by blast
qed

text \<open>
  The expanded example widget has the last observed ratio 1: its layout at blend 1 is the
  pure full one. The compact example widget has the last observed ratio 0: both its
  layouts are the pure compact one.
\<close>

theorem computeLayout_endpoints_witness:
  "(\<exists>l0 l1. computeLayout64 exampleFull 0 = Inr l0 \<and> computeLayout64 exampleFull 1 = Inr l1
      \<and> lastRatio exampleFull = 1 \<and> extent exampleFull l1 = 58
      \<and> ratio l0 = 5404319552844595 / 36028797018963968 \<and> ratio l1 = 1
      \<and> l1 = pureFull exampleFull l1)
   \<and> (\<exists>l0 l1. computeLayout64 exampleCompact 0 = Inr l0
      \<and> computeLayout64 exampleCompact 1 = Inr l1
      \<and> lastRatio exampleCompact = 0 \<and> extent exampleCompact l0 = 58
      \<and> ratio l0 = 0 \<and> ratio l1 = 0
      \<and> l0 = pureCompact exampleCompact l0 \<and> l1 = pureCompact exampleCompact l1)"
proof -
  have "lastRatio exampleFull = 1" and "lastRatio exampleCompact = 0"
    by (simp_all add: exampleFull_def exampleCompact_def initial_def)
  moreover have "extent exampleFull l = 58" if "computeLayout64 exampleFull 1 = Inr l" for l
    using that unfolding computeLayout64_exampleFull
    by (auto simp add: extent_def example_defs mkRect_def)
  moreover have "extent exampleCompact l = 58" if "computeLayout64 exampleCompact 0 = Inr l" for l
    using that unfolding computeLayout64_exampleCompact
    by (auto simp add: extent_def example_defs mkRect_def)
  ultimately show ?thesis
    using computeLayout_endpoints [OF computeLayout64_exampleFull]
      computeLayout_endpoints [OF computeLayout64_exampleCompact]
    by (simp add: computeLayout64_exampleFull computeLayout64_exampleCompact)
qed

text \<open>
  Claim C2 as stated fails. With the last observed ratio 1, the layout at blend 0 has the
  ratio 0.15, \<open>photoLeft\<close> 2.6 and \<open>single\<close> 22.3 (as \<^verbatim>\<open>float64\<close>), not the compact values
  2 and 16; with the last observed ratio 0, the layout at blend 1 has \<open>photoLeft = 2\<close>, not
  the full value 6.
\<close>

theorem computeLayout_endpoints_counterexample:
  "computeLayout64 exampleFull 0 =
     Inr \<lparr>itemsCount = 10, geometryShift = (0, 0), expandedRatio = 1,
        ratio = 5404319552844595 / 36028797018963968,
        thumbnailLeft = 7,
        photoLeft = 5854679515581645 / 2251799813685248,
        left = 2476979795053773 / 562949953421312,
        single = 6276891980647629 / 281474976710656,
        smallSkip = 0, leftFull = - 190, leftSmall = 8, singleFull = 58,
        singleSmall = 16, startIndexSmall = 0, endIndexSmall = 3, startIndexFull = 3,
        endIndexFull = 7\<rparr>
   \<and> real_of_int (photoLeft_st (small (st exampleFull))) = 2
   \<and> real_of_int (shift_st (small (st exampleFull))) = 16
   \<and> computeLayout64 exampleCompact 1 =
     Inr \<lparr>itemsCount = 3, geometryShift = (0, 0), expandedRatio = 0, ratio = 0,
        thumbnailLeft = 10, photoLeft = 2, left = 8, single = 16,
        smallSkip = 0, leftFull = 10, leftSmall = 8, singleFull = 58,
        singleSmall = 16, startIndexSmall = 0, endIndexSmall = 3,
        startIndexFull = 0, endIndexFull = 2\<rparr>
   \<and> real_of_int (photoLeft_st (full (st exampleCompact))) = 6"
proof -
  have "st exampleFull = exampleStyle" and "st exampleCompact = exampleStyle"
    by (simp_all add: exampleFull_def exampleCompact_def initial_def)
  then show ?thesis
    by (simp add: computeLayout64_exampleFull computeLayout64_exampleCompact exampleStyle_def)
qed

subsection \<open>The expansion controller\<close>

lemma requestExpanded_fired:
  "fired (requestExpanded w b) = fired w @ [ToggleExpandedRequest b]"
  "expanded (requestExpanded w b) = b"
  by (simp_all add: requestExpanded_def fire_def Let_def)

lemma requestExpanded_lastRatio: "lastRatio (requestExpanded w b) = lastRatio w"
  by (simp add: requestExpanded_def fire_def Let_def)

lemma updateExpanding_at:
  assumes "expandingHeight = 0 \<or> 0 < expandedHeight"
    and "(if expandingHeight = 0 then 0
          else real_of_int expandingHeight / real_of_int expandedHeight) = r"
  shows "updateExpanding w expandingHeight expandedHeight =
    Inr (if lastRatio w = r then w
         else if expanded w \<and> r < lastRatio w \<and> r < kCollapseAfterRatio
           then requestExpanded (w\<lparr>lastRatio := r\<rparr>) False
         else if \<not> expanded w \<and> lastRatio w < r \<and> kExpandAfterRatio < r
           then requestExpanded (w\<lparr>lastRatio := r\<rparr>) True
         else w\<lparr>lastRatio := r\<rparr>)"
proof -
  have e: "expandingRatio expandingHeight expandedHeight = Inr r"
    using assms by (auto simp add: expandingRatio_def fdiv_def)
  have c: "\<not> \<not> (expandingHeight = 0 \<or> 0 < expandedHeight)"
    using assms(1) by simp
  show ?thesis
    unfolding updateExpanding_def e andThen_def Let_def
    by (simp only: c if_False sum.case) auto
qed

text \<open>
  Claim C9. \<^verbatim>\<open>updateExpanding\<close> asserts that a nonzero expanding height comes with a
  positive expanded height: it is a contract violation otherwise. Under that contract the
  ratio is finite: with the expanding height 0 the ratio is 0 and nothing is divided
  (also when the expanded height is 0); otherwise the divisor is positive and the ratio is
  the quotient. In both cases the call returns and stores that ratio; no call ends in a
  division by zero.
\<close>

theorem updateExpanding_contract:
  "updateExpanding w expandingHeight expandedHeight \<noteq> Inl NotFinite
   \<and> (expandingHeight \<noteq> 0 \<and> expandedHeight \<le> 0
      \<longrightarrow> updateExpanding w expandingHeight expandedHeight = Inl ContractViolation)
   \<and> (expandingHeight = 0
      \<longrightarrow> expandingRatio expandingHeight expandedHeight = Inr 0
        \<and> (\<exists>w'. updateExpanding w expandingHeight expandedHeight = Inr w' \<and> lastRatio w' = 0))
   \<and> (expandingHeight \<noteq> 0 \<and> 0 < expandedHeight
      \<longrightarrow> 0 < real_of_int expandedHeight
        \<and> expandingRatio expandingHeight expandedHeight
            = Inr (real_of_int expandingHeight / real_of_int expandedHeight)
        \<and> (\<exists>w'. updateExpanding w expandingHeight expandedHeight = Inr w'
             \<and> lastRatio w' = real_of_int expandingHeight / real_of_int expandedHeight))"
  by (auto simp add: updateExpanding_def expandingRatio_def fdiv_def andThen_def Let_def
      requestExpanded_lastRatio)

text \<open>
  The three cases at concrete heights: 5 of 0 violates the contract, 0 of 0 gives the
  ratio 0, 45 of 90 gives the ratio one half.
\<close>

theorem updateExpanding_contract_witness:
  "updateExpanding (initial exampleStyle) 5 0 \<noteq> Inl NotFinite
   \<and> updateExpanding (initial exampleStyle) 5 0 = Inl ContractViolation
   \<and> expandingRatio 0 0 = Inr 0
   \<and> (\<exists>w'. updateExpanding (initial exampleStyle) 0 0 = Inr w' \<and> lastRatio w' = 0)
   \<and> expandingRatio 45 90 = Inr (1 / 2)
   \<and> (\<exists>w'. updateExpanding (initial exampleStyle) 45 90 = Inr w' \<and> lastRatio w' = 1 / 2)"
  using updateExpanding_contract [of "initial exampleStyle" 5 0]
    updateExpanding_contract [of "initial exampleStyle" 0 0]
    updateExpanding_contract [of "initial exampleStyle" 45 90]
  by simp

text \<open>
  Claim C3. From a widget that is not expanded and whose last observed ratio is 0, the
  ratios 0, 0.5 and 0.73 (heights over a positive capacity) fire one expand request, at
  the sample 0.73; the ratios 0.70 and 0.67 after them fire one collapse request, at the
  sample 0.67 and not at 0.70.
\<close>

theorem updateExpanding_hysteresis:
  assumes "\<not> expanded w" and "lastRatio w = 0" and "0 < cap"
    and "real_of_int h1 / real_of_int cap = 1 / 2"
    and "real_of_int h2 / real_of_int cap = 73 / 100"
    and "real_of_int h3 / real_of_int cap = 70 / 100"
    and "real_of_int h4 / real_of_int cap = 67 / 100"
  shows "\<exists>w0 w1 w2 w3 w4.
      updateExpanding w 0 cap = Inr w0 \<and> fired w0 = fired w
    \<and> updateExpanding w0 h1 cap = Inr w1 \<and> fired w1 = fired w
    \<and> updateExpanding w1 h2 cap = Inr w2 \<and> fired w2 = fired w @ [ToggleExpandedRequest True]
    \<and> updateExpanding w2 h3 cap = Inr w3 \<and> fired w3 = fired w @ [ToggleExpandedRequest True]
    \<and> updateExpanding w3 h4 cap = Inr w4
    \<and> fired w4 = fired w @ [ToggleExpandedRequest True, ToggleExpandedRequest False]"
proof -
  have c: "\<And>h. h = 0 \<or> 0 < cap"
    using assms(3) by simp
  have r0: "(if (0::int) = 0 then 0 else real_of_int 0 / real_of_int cap) = 0"
    by simp
  have r1: "(if h1 = 0 then 0 else real_of_int h1 / real_of_int cap) = 1 / 2"
    using assms(4) by auto
  have r2: "(if h2 = 0 then 0 else real_of_int h2 / real_of_int cap) = 73 / 100"
    using assms(5) by auto
  have r3: "(if h3 = 0 then 0 else real_of_int h3 / real_of_int cap) = 70 / 100"
    using assms(6) by auto
  have r4: "(if h4 = 0 then 0 else real_of_int h4 / real_of_int cap) = 67 / 100"
    using assms(7) by auto
  have s0: "updateExpanding w 0 cap = Inr w"
    using assms(2) by (simp add: updateExpanding_at [OF c r0])
  let ?w1 = "w\<lparr>lastRatio := 1 / 2\<rparr>"
  have s1: "updateExpanding w h1 cap = Inr ?w1"
    using assms(1,2) by (simp add: updateExpanding_at [OF c r1] kExpandAfterRatio_def)
  let ?w2 = "requestExpanded (?w1\<lparr>lastRatio := 73 / 100\<rparr>) True"
  have s2: "updateExpanding ?w1 h2 cap = Inr ?w2"
    using assms(1) by (simp add: updateExpanding_at [OF c r2] kExpandAfterRatio_def)
  have e2: "expanded ?w2" "lastRatio ?w2 = 73 / 100"
    by (simp_all add: requestExpanded_fired requestExpanded_lastRatio)
  let ?w3 = "?w2\<lparr>lastRatio := 70 / 100\<rparr>"
  have s3: "updateExpanding ?w2 h3 cap = Inr ?w3"
    using e2 by (simp add: updateExpanding_at [OF c r3] kCollapseAfterRatio_def)
  have e3: "expanded ?w3" "lastRatio ?w3 = 70 / 100"
    using e2 by simp_all
  let ?w4 = "requestExpanded (?w3\<lparr>lastRatio := 67 / 100\<rparr>) False"
  have s4: "updateExpanding ?w3 h4 cap = Inr ?w4"
    using e3 by (simp add: updateExpanding_at [OF c r4] kCollapseAfterRatio_def)
  have f: "fired ?w1 = fired w" "fired ?w2 = fired w @ [ToggleExpandedRequest True]"
    "fired ?w3 = fired w @ [ToggleExpandedRequest True]"
    "fired ?w4 = fired w @ [ToggleExpandedRequest True, ToggleExpandedRequest False]"
    by (simp_all add: requestExpanded_fired)
  from s0 s1 s2 s3 s4 f show ?thesis by blast
qed

text \<open>
  The same run from the initial widget, with the heights 0, 50, 73, 70, 67 of 100.
\<close>

theorem updateExpanding_hysteresis_witness:
  "\<exists>w1 w2 w3 w4.
      updateExpanding (initial exampleStyle) 0 100 = Inr (initial exampleStyle)
    \<and> updateExpanding (initial exampleStyle) 50 100 = Inr w1 \<and> fired w1 = []
    \<and> updateExpanding w1 73 100 = Inr w2 \<and> fired w2 = [ToggleExpandedRequest True]
    \<and> updateExpanding w2 70 100 = Inr w3 \<and> fired w3 = [ToggleExpandedRequest True]
    \<and> updateExpanding w3 67 100 = Inr w4
    \<and> fired w4 = [ToggleExpandedRequest True, ToggleExpandedRequest False]"
proof -
  have h: "\<not> expanded (initial exampleStyle)" "lastRatio (initial exampleStyle) = 0"
    "fired (initial exampleStyle) = []"
    by (simp_all add: initial_def)
  have z: "updateExpanding (initial exampleStyle) 0 100 = Inr (initial exampleStyle)"
    using h by (simp add: updateExpanding_at [where r = 0])
  from updateExpanding_hysteresis [OF h(1) h(2), of 100 50 73 70 67]
  show ?thesis unfolding z h(3) by auto
qed

subsection \<open>What hit-testing leaves unchanged\<close>

lemma andThen_Inr: "(andThen m f = Inr y) = (\<exists>x. m = Inr x \<and> f x = Inr y)"
  by (cases m) (simp_all add: andThen_def)

lemma requestExpanded_view: "scrollView (requestExpanded w b) = scrollView w"
  by (simp add: requestExpanded_def fire_def Let_def scrollView_def)

lemma updateExpanding_cases:
  assumes "updateExpanding w h c = Inr w'"
  obtains "w' = w" | r where "w' = w\<lparr>lastRatio := r\<rparr>"
  | r b where "w' = requestExpanded (w\<lparr>lastRatio := r\<rparr>) b"
proof -
  have c: "h = 0 \<or> 0 < c"
  proof (rule ccontr)
    assume "\<not> (h = 0 \<or> 0 < c)"
    then have "updateExpanding w h c = Inl ContractViolation"
      by (simp add: updateExpanding_def)
    with assms show False by simp
  qed
  define r where "r = (if h = 0 then 0 else real_of_int h / real_of_int c)"
  from updateExpanding_at [OF c r_def [symmetric], of w] assms
  have "w' = (if lastRatio w = r then w
         else if expanded w \<and> r < lastRatio w \<and> r < kCollapseAfterRatio
           then requestExpanded (w\<lparr>lastRatio := r\<rparr>) False
         else if \<not> expanded w \<and> lastRatio w < r \<and> kExpandAfterRatio < r
           then requestExpanded (w\<lparr>lastRatio := r\<rparr>) True
         else w\<lparr>lastRatio := r\<rparr>)"
    by simp
  then have "w' = w \<or> w' = w\<lparr>lastRatio := r\<rparr>
      \<or> (\<exists>b. w' = requestExpanded (w\<lparr>lastRatio := r\<rparr>) b)"
    by (auto split: if_splits)
  then show thesis
    using that by blast
qed

lemma updateExpanding_view:
  assumes "updateExpanding w h c = Inr w'"
  shows "scrollView w' = scrollView w"
  using assms
  by (rule updateExpanding_cases) (simp_all add: requestExpanded_view, simp_all add: scrollView_def)

lemma updateExpanding_fired:
  assumes "updateExpanding w h c = Inr w'"
  shows "\<exists>ev. fired w' = fired w @ ev"
  using assms
  by (rule updateExpanding_cases) (simp_all add: requestExpanded_fired)

lemma computeLayoutCurrent_view:
  assumes "computeLayoutCurrent w = Inr (w', l)"
  shows "scrollView w' = scrollView w"
  using assms
  by (auto simp add: computeLayoutCurrent_def andThen_Inr dest: updateExpanding_view)

lemma computeLayoutCurrent_fired:
  assumes "computeLayoutCurrent w = Inr (w', l)"
  shows "\<exists>ev. fired w' = fired w @ ev"
  using assms
  by (auto simp add: computeLayoutCurrent_def andThen_Inr dest: updateExpanding_fired)

lemma updateSelected_view:
  assumes "updateSelected w = Inr w'"
  shows "scrollView w' = scrollView w"
proof (cases "pressed w \<ge> 0")
  case True
  with assms show ?thesis by (simp add: updateSelected_def)
next
  case False
  with assms obtain w1 l s where c: "computeLayoutCurrent w = Inr (w1, l)"
    and w': "w' = w1 \<or> (\<exists>c. w' = w1\<lparr>selected := s\<rparr> \<or> w' = w1\<lparr>cursor := c, selected := s\<rparr>)"
    by (auto simp add: updateSelected_def andThen_Inr Let_def split: if_splits)
  from w' have "scrollView w' = scrollView w1"
    by (auto simp add: scrollView_def)
  with computeLayoutCurrent_view [OF c] show ?thesis by simp
qed

lemma updateSelected_fired:
  assumes "updateSelected w = Inr w'"
  shows "\<exists>ev. fired w' = fired w @ ev"
proof (cases "pressed w \<ge> 0")
  case True
  with assms show ?thesis by (simp add: updateSelected_def)
next
  case False
  with assms obtain w1 l s where c: "computeLayoutCurrent w = Inr (w1, l)"
    and w': "w' = w1 \<or> (\<exists>c. w' = w1\<lparr>selected := s\<rparr> \<or> w' = w1\<lparr>cursor := c, selected := s\<rparr>)"
    by (auto simp add: updateSelected_def andThen_Inr Let_def split: if_splits)
  from w' have "fired w' = fired w1"
    by auto
  with computeLayoutCurrent_fired [OF c] show ?thesis by simp
qed

lemma checkLoadMore_fired: "\<exists>ev. fired (checkLoadMore w) = fired w @ ev"
  by (simp add: checkLoadMore_def fire_def)

subsection \<open>No handler fails on a well-formed widget\<close>

text \<open>
  Every handler returns a widget, and a well-formed one, when it is given a well-formed
  widget; so does every run of inputs whose animation ticks bring values between 0 and 1.
  The widget after the constructor is well-formed when the style is.
\<close>

lemma succeeds_Inr [simp]: "succeeds P (Inr x) = P x"
  by (simp add: succeeds_def)

lemma succeeds_Inl [simp]: "succeeds P (Inl e) = False"
  by (simp add: succeeds_def)

lemma succeeds_andThen:
  assumes "succeeds P m" and "\<And>x. P x \<Longrightarrow> succeeds Q (f x)"
  shows "succeeds Q (andThen m f)"
  using assms by (cases m) (simp_all add: andThen_def)

lemma succeedsD: "succeeds P r \<Longrightarrow> \<exists>x. r = Inr x \<and> P x"
  by (cases r) simp_all

lemma succeeds_mono: "succeeds P r \<Longrightarrow> (\<And>x. P x \<Longrightarrow> Q x) \<Longrightarrow> succeeds Q r"
  by (cases r) simp_all

lemma cdiv_nonneg: "0 \<le> a \<Longrightarrow> 0 < b \<Longrightarrow> 0 \<le> cdiv a b"
  by (simp add: cdiv_def sgn_if pos_imp_zdiv_nonneg_iff)

lemma cdiv_twice_le:
  assumes "0 \<le> a" and "3 \<le> b"
  shows "2 * cdiv a b \<le> a"
proof -
  have "cdiv a b = a div b" using assms by (auto simp add: cdiv_def sgn_if)
  moreover have "0 \<le> a div b" using assms by (simp add: pos_imp_zdiv_nonneg_iff)
  moreover have "b * (a div b) \<le> a"
  proof -
    have "0 \<le> a mod b" using assms by simp
    moreover have "b * (a div b) + a mod b = a" by simp
    ultimately show ?thesis by linarith
  qed
  moreover have "2 * (a div b) \<le> b * (a div b)"
    using assms \<open>0 \<le> a div b\<close> by (intro mult_right_mono) simp_all
  ultimately show ?thesis by linarith
qed

lemma singleFull_pos:
  fixes m t wd n :: int
  assumes "0 < m" and "0 \<le> n"
  shows "0 < m + (if t < wd \<and> n > 1
           then cdiv (wd - t - 2 * (if t < wd then cdiv (wd - t) (n + 1) else 0)) (n - 1)
           else (if t < wd then cdiv (wd - t) (n + 1) else 0))"
proof (cases "t < wd")
  case False
  with assms show ?thesis by simp
next
  case True
  then have s: "0 \<le> cdiv (wd - t) (n + 1)"
    using assms by (intro cdiv_nonneg) simp_all
  show ?thesis
  proof (cases "n > 1")
    case False
    with True s assms show ?thesis by simp
  next
    case n: True
    then have "2 * cdiv (wd - t) (n + 1) \<le> wd - t"
      using True by (intro cdiv_twice_le) simp_all
    then have "0 \<le> cdiv (wd - t - 2 * cdiv (wd - t) (n + 1)) (n - 1)"
      using n by (intro cdiv_nonneg) simp_all
    with True n assms show ?thesis by simp
  qed
qed

lemma ex_if_Inl_Inr: "(\<exists>l. (if c then Inl a else Inr b) = Inr l \<and> P l) = (\<not> c \<and> P b)"
  by auto

lemma computeLayout_succeeds:
  assumes "0 < photoLeft_st (full (st w)) * 2 + photo_st (full (st w))"
  shows "\<exists>l. computeLayout w e = Inr l \<and> 0 < singleFull l
     \<and> singleSmall l = shift_st (small (st w))"
  apply (simp only: computeLayout_def Let_def ex_if_Inl_Inr Layout.simps)
  using singleFull_pos [OF assms, of "int (length (items w))"
      "left_st (full (st w)) + (photoLeft_st (full (st w)) * 2 + photo_st (full (st w))) * int (length (items w))"
      "width w"]
  apply simp
  done

lemma unitInterval_start:
  "unitInterval a \<Longrightarrow> 0 \<le> v \<Longrightarrow> v \<le> 1 \<Longrightarrow> unitInterval (anim_start a v)"
  by (cases a) (simp_all add: unitInterval_def anim_start_def)

lemma unitInterval_value:
  "unitInterval a \<Longrightarrow> 0 \<le> v \<Longrightarrow> v \<le> 1 \<Longrightarrow> 0 \<le> anim_value a v \<and> anim_value a v \<le> 1"
  by (cases a) (simp_all add: unitInterval_def anim_value_def)

lemma requestExpanded_wf: "wellFormed w \<Longrightarrow> wellFormed (requestExpanded w b)"
  by (cases b) (simp_all add: wellFormed_def requestExpanded_def fire_def Let_def unitInterval_start)

lemma fire_wf: "wellFormed (fire e w) = wellFormed w"
  by (simp add: wellFormed_def fire_def)

lemma checkLoadMore_wf: "wellFormed (checkLoadMore w) = wellFormed w"
  by (simp add: checkLoadMore_def fire_wf)

lemma updateScrollMax_wf: "wellFormed (updateScrollMax w) = wellFormed w"
  by (simp add: updateScrollMax_def Let_def checkLoadMore_wf) (simp add: wellFormed_def)

lemma setGeometry_wf: "wellFormed (setGeometry w r) = wellFormed w"
  by (simp add: setGeometry_def Let_def resizeEvent_def updateScrollMax_wf)
    (simp add: wellFormed_def)

lemma updateExpanding_wf:
  assumes "wellFormed w" and "0 \<le> h" and "h \<le> H" and "0 < H"
  shows "succeeds (\<lambda>w'. wellFormed w' \<and> 0 \<le> lastRatio w' \<and> lastRatio w' \<le> 1)
    (updateExpanding w h H)"
proof -
  define r where "r = (if h = 0 then 0 else real_of_int h / real_of_int H)"
  have r: "0 \<le> r" "r \<le> 1"
    using assms(2-4) by (simp_all add: r_def)
  have c: "h = 0 \<or> 0 < H" using assms(4) by simp
  have v: "wellFormed (w\<lparr>lastRatio := r\<rparr>)"
    using assms(1) by (simp add: wellFormed_def)
  have l: "lastRatio (requestExpanded (w\<lparr>lastRatio := r\<rparr>) b) = r" for b
    by (simp add: requestExpanded_lastRatio)
  show ?thesis
    unfolding updateExpanding_at [OF c r_def [symmetric]]
    using r v assms(1) l by (auto simp add: requestExpanded_wf)
qed

lemma toInt_bounds:
  assumes "0 \<le> h" and "0 \<le> v" and "v \<le> 1"
  shows "0 \<le> toInt (real_of_int h * v)" and "toInt (real_of_int h * v) \<le> h"
proof -
  have n: "0 \<le> real_of_int h * v" using assms by simp
  have "real_of_int h * v \<le> real_of_int h * 1"
    using assms by (intro mult_left_mono) simp_all
  then have u: "real_of_int h * v \<le> real_of_int h" by simp
  from n show "0 \<le> toInt (real_of_int h * v)" by (simp add: toInt_def)
  from n u show "toInt (real_of_int h * v) \<le> h"
    by (simp add: toInt_def floor_le_iff)
qed

lemma blendedRatio_bounds:
  assumes "0 \<le> lastRatio w" and "lastRatio w \<le> 1" and "0 \<le> e" and "e \<le> 1"
  shows "0 \<le> blendedRatio w e" and "blendedRatio w e \<le> 1"
proof -
  have b: "blendedRatio w e = lastRatio w * (e + kFrictionRatio * (1 - e))"
    by (simp add: blendedRatio_def algebra_simps)
  have k1: "0 \<le> e + kFrictionRatio * (1 - e)"
    using assms(3,4) by (simp add: kFrictionRatio_def field_simps)
  have k2: "e + kFrictionRatio * (1 - e) \<le> 1"
    using assms(3,4) by (simp add: kFrictionRatio_def field_simps)
  note k = k1 k2
  show "0 \<le> blendedRatio w e"
    unfolding b using assms(1) k(1) by (rule mult_nonneg_nonneg)
  show "blendedRatio w e \<le> 1"
    unfolding b using assms(1,2) k by (intro mult_le_one) simp_all
qed

lemma lerp_pos:
  assumes "0 < a" and "0 < b" and "0 \<le> r" and "r \<le> 1"
  shows "0 < lerp r a b"
proof -
  have "lerp r a b = a * (1 - r) + b * r" by (simp add: lerp_def algebra_simps)
  moreover have "0 \<le> a * (1 - r)" using assms by simp
  moreover have "0 \<le> b * r" using assms by simp
  moreover have "0 < a * (1 - r) \<or> 0 < b * r"
  proof (cases "r = 0")
    case True
    with assms show ?thesis by simp
  next
    case False
    with assms have "0 < r" by simp
    with assms show ?thesis by simp
  qed
  ultimately show ?thesis by linarith
qed

lemma computeLayout_single_pos:
  assumes "wellFormed w" and "0 \<le> lastRatio w" and "lastRatio w \<le> 1" and "0 \<le> e" and "e \<le> 1"
  shows "\<exists>l. computeLayout w e = Inr l \<and> 0 < single l"
proof -
  from assms(1) have m: "0 < photoLeft_st (full (st w)) * 2 + photo_st (full (st w))"
    and s: "0 < shift_st (small (st w))"
    by (simp_all add: wellFormed_def)
  from computeLayout_succeeds [OF m, of e] obtain l where l: "computeLayout w e = Inr l"
    and f: "0 < singleFull l" and sm: "singleSmall l = shift_st (small (st w))"
    by blast
  have "0 < lerp (ratio l) (real_of_int (singleSmall l)) (real_of_int (singleFull l))"
    using s f sm blendedRatio_bounds [OF assms(2-5)]
    by (intro lerp_pos) (simp_all add: computeLayout_ratio [OF l])
  then have "0 < single l" by (simp add: computeLayout_single [OF l])
  with l show ?thesis by blast
qed

lemma computeLayoutCurrent_wf:
  assumes "wellFormed w"
  shows "succeeds (\<lambda>p. wellFormed (fst p) \<and> 0 < single (snd p)) (computeLayoutCurrent w)"
proof -
  from assms have a: "unitInterval (expandCatchUpAnimation w)"
    and h: "0 \<le> lastExpandedHeight w" "lastExpandedHeight w \<le> height_st (full (st w))"
    and H: "0 < height_st (full (st w))"
    by (simp_all add: wellFormed_def)
  from unitInterval_value [OF a, of 1] have v: "0 \<le> anim_value (expandCatchUpAnimation w) 1"
    "anim_value (expandCatchUpAnimation w) 1 \<le> 1"
    by simp_all
  from toInt_bounds [OF h(1) v] h(2)
  have t: "0 \<le> toInt (real_of_int (lastExpandedHeight w) * anim_value (expandCatchUpAnimation w) 1)"
    "toInt (real_of_int (lastExpandedHeight w) * anim_value (expandCatchUpAnimation w) 1)
      \<le> height_st (full (st w))"
    by simp_all
  show ?thesis
    unfolding computeLayoutCurrent_def
  proof (rule succeeds_andThen [OF updateExpanding_wf [OF assms t H]])
    fix w1
    assume w1: "wellFormed w1 \<and> 0 \<le> lastRatio w1 \<and> lastRatio w1 \<le> 1"
    then have "unitInterval (expandedAnimation w1)" by (simp add: wellFormed_def)
    from unitInterval_value [OF this, of "if expanded w1 then 1 else 0"]
    have e: "0 \<le> anim_value (expandedAnimation w1) (if expanded w1 then 1 else 0)"
      "anim_value (expandedAnimation w1) (if expanded w1 then 1 else 0) \<le> 1"
      by simp_all
    from computeLayout_single_pos [OF _ _ _ e, of w1] w1 obtain l where
      "computeLayout w1 (anim_value (expandedAnimation w1) (if expanded w1 then 1 else 0)) = Inr l"
      "0 < single l"
      by blast
    with w1 show "succeeds (\<lambda>p. wellFormed (fst p) \<and> 0 < single (snd p))
        (andThen (computeLayout w1 (anim_value (expandedAnimation w1) (if expanded w1 then 1 else 0)))
          (\<lambda>layout. Inr (w1, layout)))"
      by (simp add: andThen_def)
  qed
qed

lemma hitTest_succeeds:
  assumes "0 < single l"
  shows "\<exists>k. hitTest s l x = Inr k"
  using assms by (simp add: hitTest_def Let_def fdiv_def andThen_def)

lemma updateSelected_wf:
  assumes "wellFormed w"
  shows "succeeds wellFormed (updateSelected w)"
proof (cases "pressed w \<ge> 0")
  case True
  with assms show ?thesis by (simp add: updateSelected_def)
next
  case False
  have "succeeds wellFormed (andThen (computeLayoutCurrent w) (\<lambda>p.
        andThen
          (hitTest (st (fst p)) (snd p) (px (mapFromGlobal (fst p) (lastMousePosition (fst p)))))
          (\<lambda>selected'.
             if selected (fst p) \<noteq> selected'
             then
               (let over = (selected' \<ge> 0);
                    w2 = (if over \<noteq> (selected (fst p) \<ge> 0)
                      then (fst p)\<lparr>cursor := (if over then cur_pointer else cur_default)\<rparr>
                      else (fst p))
                in Inr (w2\<lparr>selected := selected'\<rparr>))
             else Inr (fst p))))"
  proof (rule succeeds_andThen [OF computeLayoutCurrent_wf [OF assms]])
    fix p :: "List \<times> Layout"
    assume p: "wellFormed (fst p) \<and> 0 < single (snd p)"
    then obtain k where
      k: "hitTest (st (fst p)) (snd p) (px (mapFromGlobal (fst p) (lastMousePosition (fst p)))) = Inr k"
      using hitTest_succeeds by blast
    from p have "wellFormed ((fst p)\<lparr>selected := k\<rparr>)"
      and "wellFormed ((fst p)\<lparr>cursor := c, selected := k\<rparr>)" for c
      by (simp_all add: wellFormed_def)
    with p show "succeeds wellFormed (andThen
          (hitTest (st (fst p)) (snd p) (px (mapFromGlobal (fst p) (lastMousePosition (fst p)))))
          (\<lambda>selected'.
             if selected (fst p) \<noteq> selected'
             then
               (let over = (selected' \<ge> 0);
                    w2 = (if over \<noteq> (selected (fst p) \<ge> 0)
                      then (fst p)\<lparr>cursor := (if over then cur_pointer else cur_default)\<rparr>
                      else (fst p))
                in Inr (w2\<lparr>selected := selected'\<rparr>))
             else Inr (fst p)))"
      unfolding k by (simp add: andThen_def Let_def)
  qed
  with False show ?thesis
    by (simp add: updateSelected_def case_prod_unfold)
qed

lemma requestExpanded_dragging: "dragging (requestExpanded w b) = dragging w"
  by (simp add: requestExpanded_def fire_def Let_def)

lemma updateExpanding_dragging:
  assumes "updateExpanding w h c = Inr w'"
  shows "dragging w' = dragging w"
  using assms
  by (rule updateExpanding_cases) (simp_all add: requestExpanded_dragging)

lemma updateSelected_dragging:
  assumes "updateSelected w = Inr w'"
  shows "dragging w' = dragging w"
proof (cases "pressed w \<ge> 0")
  case True
  with assms show ?thesis by (simp add: updateSelected_def)
next
  case False
  with assms obtain w1 l s where c: "computeLayoutCurrent w = Inr (w1, l)"
    and w': "w' = w1 \<or> (\<exists>c. w' = w1\<lparr>selected := s\<rparr> \<or> w' = w1\<lparr>cursor := c, selected := s\<rparr>)"
    by (auto simp add: updateSelected_def andThen_Inr Let_def split: if_splits)
  from c have "dragging w1 = dragging w"
    by (auto simp add: computeLayoutCurrent_def andThen_Inr dest: updateExpanding_dragging)
  with w' show ?thesis by auto
qed

lemma updateSelected_wf_dragging:
  assumes "wellFormed w"
  shows "succeeds (\<lambda>w'. wellFormed w' \<and> dragging w' = dragging w) (updateSelected w)"
proof -
  from succeedsD [OF updateSelected_wf [OF assms]] obtain w' where
    "updateSelected w = Inr w'" "wellFormed w'"
    by blast
  with updateSelected_dragging [of w w'] show ?thesis by simp
qed

lemma countSmallGeometry_succeeds:
  assumes "wellFormed w"
  shows "\<exists>r. countSmallGeometry w = Inr r"
proof -
  from assms have "0 < photoLeft_st (full (st w)) * 2 + photo_st (full (st w))"
    by (simp add: wellFormed_def)
  from computeLayout_succeeds [OF this, of 0] obtain l where "computeLayout w 0 = Inr l"
    by blast
  then show ?thesis
    by (simp add: countSmallGeometry_def andThen_def Let_def)
qed

lemma updateGeometry_wf:
  assumes "wellFormed w"
  shows "succeeds wellFormed (updateGeometry w)"
proof -
  from countSmallGeometry_succeeds [OF assms] obtain r where r: "countSmallGeometry w = Inr r"
    by blast
  have c: "wellFormed (w\<lparr>changingGeometryFrom := r\<rparr>)"
    using assms by (simp add: wellFormed_def)
  show ?thesis
    using assms c
    by (cases "state w") (simp_all add: updateGeometry_def r andThen_def Let_def setGeometry_wf)
qed

lemma setState_wf:
  assumes "wellFormed w"
  shows "succeeds wellFormed (setState w s)"
proof (cases "state w = s")
  case True
  with assms show ?thesis by (simp add: setState_def)
next
  case False
  have "wellFormed (w\<lparr>state := s\<rparr>)" using assms by (simp add: wellFormed_def)
  from updateGeometry_wf [OF this] False show ?thesis by (simp add: setState_def)
qed

lemma checkForFullState_wf:
  assumes "wellFormed w"
  shows "succeeds (\<lambda>p. wellFormed (fst p)) (checkForFullState w)"
proof -
  from succeedsD [OF setState_wf [OF assms, of Full]] obtain w' where
    "setState w Full = Inr w'" "wellFormed w'"
    by blast
  with assms show ?thesis
    by (simp add: checkForFullState_def andThen_def)
qed

lemma clamp_bounds: "lo \<le> hi \<Longrightarrow> lo \<le> clamp v lo hi \<and> clamp v lo hi \<le> hi"
  by (simp add: clamp_def)

lemma setExpandedHeight_wf:
  assumes "wellFormed w"
  shows "succeeds wellFormed (setExpandedHeight w h m)"
proof -
  define h' where "h' = clamp h 0 (height_st (full (st w)))"
  define w2 where "w2 =
    (if \<not> m \<and> expandIgnored w \<and> h' > 0
     then w\<lparr>expandIgnored := False,
            expandCatchUpAnimation := anim_start (expandCatchUpAnimation w) 0\<rparr>
     else if h' = 0 \<and> animating (expandCatchUpAnimation w)
     then w\<lparr>expandCatchUpAnimation := None\<rparr>
     else w)\<lparr>lastExpandedHeight := h'\<rparr>"
  have e: "setExpandedHeight w h m =
     (if lastExpandedHeight w = h' then Inr w
      else if m \<and> expandIgnored w then Inr w
      else if m \<and> h' > 0 \<and> lastExpandedHeight w = 0 then Inr (w\<lparr>expandIgnored := True\<rparr>)
      else andThen (checkForFullState w2) (\<lambda>p.
             if \<not> snd p then setState (fst p) (if h' = 0 then Small else Changing)
             else Inr (fst p)))"
    unfolding setExpandedHeight_def h'_def w2_def Let_def case_prod_unfold ..
  from assms have "0 \<le> height_st (full (st w))" by (simp add: wellFormed_def)
  from clamp_bounds [OF this, of h] have b: "0 \<le> h'" "h' \<le> height_st (full (st w))"
    by (simp_all add: h'_def)
  have u: "unitInterval (anim_start (expandCatchUpAnimation w) 0)"
    using assms by (intro unitInterval_start) (simp_all add: wellFormed_def)
  have w2: "wellFormed w2"
    using assms b u by (simp add: w2_def wellFormed_def unitInterval_def)
  have i: "wellFormed (w\<lparr>expandIgnored := True\<rparr>)"
    using assms by (simp add: wellFormed_def)
  have "succeeds wellFormed (andThen (checkForFullState w2) (\<lambda>p.
             if \<not> snd p then setState (fst p) (if h' = 0 then Small else Changing)
             else Inr (fst p)))"
  proof (rule succeeds_andThen [OF checkForFullState_wf [OF w2]])
    fix p :: "List \<times> bool"
    assume "wellFormed (fst p)"
    then show "succeeds wellFormed
        (if \<not> snd p then setState (fst p) (if h' = 0 then Small else Changing) else Inr (fst p))"
      by (simp add: setState_wf)
  qed
  with assms i show ?thesis
    unfolding e by simp
qed

lemma setLayoutConstraints_wf:
  assumes "wellFormed w"
  shows "succeeds wellFormed (setLayoutConstraints w p a r)"
proof -
  have "wellFormed (w\<lparr>positionSmall := p, alignSmall := a, geometryFull := r\<rparr>)"
    using assms by (simp add: wellFormed_def)
  then show ?thesis
    unfolding setLayoutConstraints_def by (rule updateGeometry_wf)
qed

lemma expandedAnimationTick_wf:
  assumes "wellFormed w" and "unitInterval a"
  shows "succeeds wellFormed (expandedAnimationTick w a)"
proof -
  have "wellFormed (w\<lparr>expandedAnimation := a\<rparr>)"
    using assms by (simp add: wellFormed_def)
  from succeedsD [OF checkForFullState_wf [OF this]] show ?thesis
    by (auto simp add: expandedAnimationTick_def andThen_def)
qed

lemma expandCatchUpAnimationTick_wf:
  assumes "wellFormed w" and "unitInterval a"
  shows "succeeds wellFormed (expandCatchUpAnimationTick w a)"
proof -
  have "wellFormed (w\<lparr>expandCatchUpAnimation := a\<rparr>)"
    using assms by (simp add: wellFormed_def)
  from succeedsD [OF checkForFullState_wf [OF this]] show ?thesis
    by (auto simp add: expandCatchUpAnimationTick_def andThen_def)
qed

lemma showContent_wf:
  assumes "wellFormed w"
  shows "succeeds wellFormed (showContent w c)"
proof -
  define w2 where "w2 = w\<lparr>content := c, items := reconcile c (items w) []\<rparr>"
  have w2: "wellFormed w2" using assms by (simp add: w2_def wellFormed_def)
  have e: "wellFormed (w\<lparr>items := [], isEmpty := True\<rparr>)"
    using assms by (simp add: wellFormed_def)
  have f: "wellFormed (v\<lparr>isEmpty := False\<rparr>)" if "wellFormed v" for v
    using that by (simp add: wellFormed_def)
  have d: "showContent w c =
     (if content w = c then Inr w
      else if c = [] then Inr (w\<lparr>items := [], isEmpty := True\<rparr>)
      else andThen
              (if length (items w2) \<noteq> length (items w) then updateGeometry w2 else Inr w2)
              (\<lambda>w3. Inr (if length (items w) = 0 then (updateScrollMax w3)\<lparr>isEmpty := False\<rparr>
                 else updateScrollMax w3)))"
    by (simp add: showContent_def Let_def w2_def)
  have g: "succeeds wellFormed
     (if length (items w2) \<noteq> length (items w) then updateGeometry w2 else Inr w2)"
    using w2 by (simp add: updateGeometry_wf)
  have "succeeds wellFormed (andThen
              (if length (items w2) \<noteq> length (items w) then updateGeometry w2 else Inr w2)
              (\<lambda>w3. Inr (if length (items w) = 0 then (updateScrollMax w3)\<lparr>isEmpty := False\<rparr>
                 else updateScrollMax w3)))"
  proof (rule succeeds_andThen [OF g])
    fix w3
    assume "wellFormed w3"
    then have "wellFormed (updateScrollMax w3)" by (simp add: updateScrollMax_wf)
    with f show "succeeds wellFormed
        (Inr (if length (items w) = 0 then (updateScrollMax w3)\<lparr>isEmpty := False\<rparr>
                 else updateScrollMax w3))"
      by simp
  qed
  with assms e show ?thesis
    unfolding d by simp
qed

lemma checkDragging_wf:
  assumes "wellFormed w"
  shows "succeeds (\<lambda>w'. wellFormed w' \<and> dragging w' = dragging w) (checkDragging w)"
proof (cases "dragging w")
  case False
  with assms show ?thesis by (simp add: checkDragging_def)
next
  case True
  with assms obtain down where d: "mouseDownPosition w = Some down"
    by (auto simp add: wellFormed_def)
  have "wellFormed (checkLoadMore (w\<lparr>scrollLeft := x\<rparr>))"
    and "dragging (checkLoadMore (w\<lparr>scrollLeft := x\<rparr>)) = dragging w" for x
    using assms by (simp_all add: checkLoadMore_wf) (simp_all add: wellFormed_def checkLoadMore_def fire_def)
  with assms True show ?thesis
    by (simp add: checkDragging_def d Let_def)
qed

lemma wheelEvent_wf:
  assumes "wellFormed w"
  shows "succeeds wellFormed (wheelEvent w e)"
proof -
  have "succeeds wellFormed (andThen
      (updateSelected ((requestExpanded w True)\<lparr>scrollLeft := x\<rparr>))
      (\<lambda>w'. Inr (checkLoadMore w')))" for x
  proof -
    have "wellFormed ((requestExpanded w True)\<lparr>scrollLeft := x\<rparr>)"
      using requestExpanded_wf [OF assms, of True] by (simp add: wellFormed_def)
    from succeedsD [OF updateSelected_wf [OF this]] obtain w1 where
      "updateSelected ((requestExpanded w True)\<lparr>scrollLeft := x\<rparr>) = Inr w1" "wellFormed w1"
      by blast
    then show ?thesis by (simp add: andThen_def checkLoadMore_wf)
  qed
  with assms show ?thesis
    by (simp add: wheelEvent_def Let_def)
qed

lemma mousePressEvent_wf:
  assumes "wellFormed w"
  shows "succeeds wellFormed (mousePressEvent w e)"
proof -
  have p: "succeeds wellFormed
      (andThen (updateSelected (w0\<lparr>lastMousePosition := globalPos e\<rparr>)) (\<lambda>w1.
              Inr (w1\<lparr>mouseDownPosition := Some (lastMousePosition w1),
                       pressed := selected w1\<rparr>)))"
    if "wellFormed w0" for w0
  proof -
    from that have "wellFormed (w0\<lparr>lastMousePosition := globalPos e\<rparr>)"
      by (simp add: wellFormed_def)
    from succeedsD [OF updateSelected_wf [OF this]] obtain w1 where
      u: "updateSelected (w0\<lparr>lastMousePosition := globalPos e\<rparr>) = Inr w1" and "wellFormed w1"
      by blast
    then have "wellFormed (w1\<lparr>mouseDownPosition := Some (lastMousePosition w1),
                       pressed := selected w1\<rparr>)"
      by (simp add: wellFormed_def)
    with u show ?thesis by (simp add: andThen_def)
  qed
  from p [OF assms] p [OF requestExpanded_wf [OF assms, of True]] assms show ?thesis
    by (simp add: mousePressEvent_def Let_def)
qed

lemma mouseMoveEvent_wf:
  assumes "wellFormed w"
  shows "succeeds wellFormed (mouseMoveEvent w e)"
proof -
  have "wellFormed (w\<lparr>lastMousePosition := globalPos e\<rparr>)"
    using assms by (simp add: wellFormed_def)
  from succeedsD [OF updateSelected_wf [OF this]] obtain w1 where
    u: "updateSelected (w\<lparr>lastMousePosition := globalPos e\<rparr>) = Inr w1" and w1: "wellFormed w1"
    by blast
  let ?w2 = "case mouseDownPosition w1 of
            Some down \<Rightarrow>
              (if \<not> dragging w1 \<and> state w1 = Full
                 \<and> manhattanLength
                     \<lparr>px = px (lastMousePosition w1) - px down,
                      py = py (lastMousePosition w1) - py down\<rparr>
                   \<ge> startDragDistance w1
               then w1\<lparr>dragging := True, startDraggingLeft := scrollLeft w1\<rparr>
               else w1)
          | None \<Rightarrow> w1"
  have "wellFormed ?w2"
    using w1 by (cases "mouseDownPosition w1") (simp_all add: wellFormed_def)
  from succeeds_mono [OF checkDragging_wf [OF this]]
  have "succeeds wellFormed (checkDragging ?w2)" by blast
  then show ?thesis
    by (simp add: mouseMoveEvent_def u andThen_def)
qed

lemma finishDragging_wf:
  assumes "wellFormed w"
  shows "succeeds (\<lambda>p. wellFormed (fst p) \<and> \<not> dragging (fst p)) (finishDragging w)"
proof (cases "dragging w")
  case False
  with assms show ?thesis by (simp add: finishDragging_def)
next
  case True
  from succeedsD [OF checkDragging_wf [OF assms]] obtain w1 where
    c: "checkDragging w = Inr w1" and w1: "wellFormed w1"
    by blast
  from w1 have "wellFormed (w1\<lparr>dragging := False\<rparr>)" by (simp add: wellFormed_def)
  from succeedsD [OF updateSelected_wf_dragging [OF this]] obtain w2 where
    u: "updateSelected (w1\<lparr>dragging := False\<rparr>) = Inr w2" and "wellFormed w2" "\<not> dragging w2"
    by auto
  with True c show ?thesis
    by (simp add: finishDragging_def andThen_def)
qed

lemma mouseReleaseEvent_wf:
  assumes "wellFormed w"
  shows "succeeds wellFormed (mouseReleaseEvent w e)"
proof -
  let ?w1 = "w\<lparr>lastMousePosition := globalPos e, pressed := - 1\<rparr>"
  have e: "mouseReleaseEvent w e = andThen (finishDragging ?w1) (\<lambda>p.
           if snd p then Inr ((fst p)\<lparr>mouseDownPosition := None\<rparr>)
           else andThen (updateSelected (fst p)) (\<lambda>w3.
             Inr ((if selected w3 = pressed w
                    then (if \<not> expanded w3
                      then requestExpanded w3 True
                      else if asSizeT (selected w3) < int (length (items w3))
                      then fire
                        (Clicked (elem_id (element (items w3 ! nat (selected w3)))))
                        w3
                      else w3)
                    else w3)\<lparr>mouseDownPosition := None\<rparr>)))"
    by (simp add: mouseReleaseEvent_def Let_def case_prod_unfold cong: if_cong)
  have w1: "wellFormed ?w1" using assms by (simp add: wellFormed_def)
  have n: "wellFormed (v\<lparr>mouseDownPosition := None\<rparr>)" if "wellFormed v" "\<not> dragging v" for v
    using that by (simp add: wellFormed_def)
  show ?thesis
    unfolding e
  proof (rule succeeds_andThen [OF finishDragging_wf [OF w1]])
    fix p :: "List \<times> bool"
    assume p: "wellFormed (fst p) \<and> \<not> dragging (fst p)"
    from succeedsD [OF updateSelected_wf_dragging [of "fst p"]] p obtain w3 where
      u: "updateSelected (fst p) = Inr w3" and w3: "wellFormed w3" "\<not> dragging w3"
      by auto
    have r: "wellFormed (requestExpanded w3 True)" "\<not> dragging (requestExpanded w3 True)"
      using w3 by (simp_all add: requestExpanded_wf requestExpanded_dragging)
    have f: "wellFormed (fire ev w3)" "\<not> dragging (fire ev w3)" for ev
      using w3 by (simp_all add: fire_wf) (simp add: fire_def)
    show "succeeds wellFormed
        (if snd p then Inr ((fst p)\<lparr>mouseDownPosition := None\<rparr>)
         else andThen (updateSelected (fst p)) (\<lambda>w3.
             Inr ((if selected w3 = pressed w
                    then (if \<not> expanded w3
                      then requestExpanded w3 True
                      else if asSizeT (selected w3) < int (length (items w3))
                      then fire
                        (Clicked (elem_id (element (items w3 ! nat (selected w3)))))
                        w3
                      else w3)
                    else w3)\<lparr>mouseDownPosition := None\<rparr>)))"
      using p w3 r f by (simp add: u andThen_def n)
  qed
qed

lemma step_wf:
  assumes "wellFormed w" and "inputOk i"
  shows "succeeds wellFormed (step w i)"
proof (cases i)
  case (Resize wd ht)
  have "wellFormed (w\<lparr>geometry := mkRect (x1 (geometry w)) (y1 (geometry w)) wd ht\<rparr>)"
    using assms(1) by (simp add: wellFormed_def)
  with Resize show ?thesis by (simp add: resizeEvent_def updateScrollMax_wf)
qed (use assms in \<open>simp_all add: showContent_wf wheelEvent_wf mousePressEvent_wf
    mouseMoveEvent_wf mouseReleaseEvent_wf setExpandedHeight_wf setLayoutConstraints_wf
    expandedAnimationTick_wf expandCatchUpAnimationTick_wf\<close>)

lemma run_wf:
  assumes "wellFormed w" and "list_all inputOk is"
  shows "succeeds wellFormed (run w is)"
  using assms
proof (induction "is" arbitrary: w)
  case Nil
  then show ?case by simp
next
  case (Cons i "is")
  from Cons.prems have "succeeds wellFormed (step w i)"
    by (intro step_wf) simp_all
  then show ?case
    unfolding run.simps
  proof (rule succeeds_andThen)
    fix w1
    assume "wellFormed w1"
    with Cons.prems(2) show "succeeds wellFormed (run w1 is)"
      by (intro Cons.IH) simp_all
  qed
qed

lemma initial_wellFormed:
  assumes "0 < height_st (full s)" and "0 < photoLeft_st (full s) * 2 + photo_st (full s)"
    and "0 < shift_st (small s)"
  shows "wellFormed (initial s)"
  using assms by (simp add: wellFormed_def initial_def unitInterval_def)

lemma example_wellFormed:
  "wellFormed (initial exampleStyle)" "wellFormed exampleCompact" "wellFormed exampleFull"
  "wellFormed exampleChanging" "wellFormed exampleClickable"
  by (simp_all add: wellFormed_def unitInterval_def exampleStyle_def exampleClickable_def
      exampleChanging_def exampleFull_def exampleCompact_def initial_def)

text \<open>
  Claim C10. Every call of \<^verbatim>\<open>requestExpanded\<close> fires a toggle-expanded event with the
  resulting flag, whether or not the call changes the flag. So a wheel event that changes
  the scroll offset of a widget that is already expanded leaves the flag as it is and
  fires the event with the value true again, before anything else the handler fires. On a
  well-formed widget the wheel handler does return a widget.
\<close>

theorem requestExpanded_always_fires:
  "fired (requestExpanded w b) = fired w @ [ToggleExpandedRequest b]
   \<and> expanded (requestExpanded w b) = b
   \<and> (wellFormed w \<longrightarrow> (\<exists>u. wheelEvent w e = Inr u))
   \<and> (expanded w \<and> state w \<noteq> Small \<and> px (angleDelta e) \<noteq> 0
        \<and> clamp
            (scrollLeft w - (if rightToLeft w then - 1 else 1)
               * (if px (pixelDelta e) \<noteq> 0 then px (pixelDelta e) else px (angleDelta e)))
            0 (scrollLeftMax w) \<noteq> scrollLeft w
        \<and> wheelEvent w e = Inr w'
      \<longrightarrow> expanded (requestExpanded w True) = expanded w
        \<and> (\<exists>ev. fired w' = fired w @ ToggleExpandedRequest True # ev))"
proof -
  have wheel: "\<exists>ev. fired w' = fired w @ ToggleExpandedRequest True # ev"
    if h: "state w \<noteq> Small" "px (angleDelta e) \<noteq> 0"
      "clamp
            (scrollLeft w - (if rightToLeft w then - 1 else 1)
               * (if px (pixelDelta e) \<noteq> 0 then px (pixelDelta e) else px (angleDelta e)))
            0 (scrollLeftMax w) \<noteq> scrollLeft w"
      "wheelEvent w e = Inr w'"
  proof -
    from h obtain n w1 where
      u: "updateSelected ((requestExpanded w True)\<lparr>scrollLeft := n\<rparr>) = Inr w1"
      and w': "w' = checkLoadMore w1"
      by (auto simp add: wheelEvent_def Let_def andThen_Inr split: if_splits)
    from updateSelected_fired [OF u] obtain ev where
      "fired w1 = fired w @ ToggleExpandedRequest True # ev"
      by (auto simp add: requestExpanded_fired)
    with checkLoadMore_fired [of w1] w' show ?thesis by auto
  qed
  have total: "\<exists>u. wheelEvent w e = Inr u" if "wellFormed w"
    using succeedsD [OF wheelEvent_wf [OF that, of e]] by blast
  show ?thesis
    using wheel total by (simp add: requestExpanded_fired)
qed

text \<open>
  A wheel step of 100 pixels on the expanded example widget: the offset moves from 200 to
  300 and the first event fired is the toggle-expanded event with the value true.
\<close>

lemma wheelEvent_exampleFull:
  "\<exists>w'. wheelEvent exampleFull exampleWheel = Inr w'
     \<and> fired w' = [ToggleExpandedRequest True, LoadMoreRequest] \<and> scrollLeft w' = 300"
  by (simp add: example_defs layout_defs eval_defs)

theorem requestExpanded_always_fires_witness:
  "wellFormed exampleFull \<and> expanded exampleFull \<and> fired exampleFull = []
   \<and> fired (requestExpanded exampleFull True) = [ToggleExpandedRequest True]
   \<and> (\<exists>w' ev. wheelEvent exampleFull exampleWheel = Inr w'
        \<and> scrollLeft w' \<noteq> scrollLeft exampleFull
        \<and> fired w' = ToggleExpandedRequest True # ev)"
proof -
  obtain w' where s: "wheelEvent exampleFull exampleWheel = Inr w'" and l: "scrollLeft w' = 300"
    using wheelEvent_exampleFull by blast
  have h: "expanded exampleFull" "state exampleFull \<noteq> Small" "fired exampleFull = []"
    "px (angleDelta exampleWheel) \<noteq> 0" "scrollLeft exampleFull = 200"
    "clamp
       (scrollLeft exampleFull - (if rightToLeft exampleFull then - 1 else 1)
          * (if px (pixelDelta exampleWheel) \<noteq> 0 then px (pixelDelta exampleWheel)
             else px (angleDelta exampleWheel)))
       0 (scrollLeftMax exampleFull) \<noteq> scrollLeft exampleFull"
    by (simp_all add: exampleFull_def initial_def exampleWheel_def clamp_def)
  from requestExpanded_always_fires [of exampleFull True exampleWheel w'] h s l
  show ?thesis by (auto simp add: example_wellFormed)
qed

subsection \<open>The item store\<close>

lemma checkLoadMore_frame:
  "items (checkLoadMore w) = items w" "st (checkLoadMore w) = st w"
  "geometry (checkLoadMore w) = geometry w" "scrollLeft (checkLoadMore w) = scrollLeft w"
  "scrollLeftMax (checkLoadMore w) = scrollLeftMax w" "content (checkLoadMore w) = content w"
  by (simp_all add: checkLoadMore_def fire_def)

lemma updateScrollMax_frame:
  "items (updateScrollMax w) = items w" "st (updateScrollMax w) = st w"
  "geometry (updateScrollMax w) = geometry w" "content (updateScrollMax w) = content w"
  by (simp_all add: updateScrollMax_def Let_def checkLoadMore_frame)

lemma setGeometry_frame:
  "items (setGeometry w r) = items w" "st (setGeometry w r) = st w"
  "geometry (setGeometry w r) = r" "content (setGeometry w r) = content w"
  by (simp_all add: setGeometry_def Let_def resizeEvent_def updateScrollMax_frame)

lemma updateGeometry_frame:
  assumes "updateGeometry w = Inr w'"
  shows "items w' = items w" and "st w' = st w" and "content w' = content w"
  using assms
  by (auto simp add: updateGeometry_def andThen_Inr Let_def setGeometry_frame split: State.splits)

lemma takeById_None: "takeById i xs = None \<Longrightarrow> find (hasId i) xs = None"
  by (induction xs) (auto simp add: hasId_def split: if_splits option.splits)

lemma takeById_Some:
  "takeById i xs = Some (item, xs') \<Longrightarrow>
     find (hasId i) xs = Some item \<and> (\<forall>j. j \<noteq> i \<longrightarrow> find (hasId j) xs' = find (hasId j) xs)"
proof (induction xs arbitrary: xs')
  case Nil
  then show ?case by simp
next
  case (Cons x xs)
  show ?case
  proof (cases "elem_id (element x) = i")
    case True
    with Cons.prems show ?thesis
      by (auto simp add: hasId_def movedFrom_def)
  next
    case False
    with Cons.prems obtain r where t: "takeById i xs = Some (item, r)" and x: "xs' = x # r"
      by (auto split: option.splits)
    from Cons.IH [OF t] False x show ?thesis
      by (auto simp add: hasId_def)
  qed
qed

lemma movedFrom_idem: "movedFrom (movedFrom item) = movedFrom item"
  by (simp add: movedFrom_def)

lemma takeById_moved:
  "takeById i xs = Some (item, xs') \<Longrightarrow> find (hasId i) xs' = Some (movedFrom item)"
proof (induction xs arbitrary: xs')
  case Nil
  then show ?case by simp
next
  case (Cons x xs)
  show ?case
  proof (cases "elem_id (element x) = i")
    case True
    with Cons.prems show ?thesis
      by (auto simp add: hasId_def movedFrom_def)
  next
    case False
    with Cons.prems obtain r where t: "takeById i xs = Some (item, r)" and x: "xs' = x # r"
      by (auto split: option.splits)
    from Cons.IH [OF t] False x show ?thesis
      by (auto simp add: hasId_def)
  qed
qed

lemma reconcile_general:
  assumes "\<forall>j. find (hasId j) old' =
      (if j \<in> seen then map_option movedFrom (find (hasId j) old) else find (hasId j) old)"
  shows "reconcile c old' acc = acc @ reconciledFrom seen old c"
  using assms
proof (induction c arbitrary: old' acc seen)
  case Nil
  then show ?case by simp
next
  case (Cons el els)
  let ?i = "elem_id el"
  show ?case
  proof (cases "takeById ?i old'")
    case None
    from takeById_None [OF None] Cons.prems
    have f: "find (hasId ?i) old = None"
      by (auto split: if_splits)
    have "\<forall>j. find (hasId j) old' =
      (if j \<in> insert ?i seen then map_option movedFrom (find (hasId j) old)
       else find (hasId j) old)"
      using Cons.prems f by auto
    then have "reconcile els old' (acc @ [newItem el])
        = (acc @ [newItem el]) @ reconciledFrom (insert ?i seen) old els"
      by (rule Cons.IH)
    with None f show ?thesis by simp
  next
    case (Some p)
    obtain item old'' where p: "p = (item, old'')" by (cases p)
    from takeById_Some [OF Some [unfolded p]]
    have f': "find (hasId ?i) old' = Some item"
      and o: "\<forall>j. j \<noteq> ?i \<longrightarrow> find (hasId j) old'' = find (hasId j) old'"
      by simp_all
    from takeById_moved [OF Some [unfolded p]]
    have m: "find (hasId ?i) old'' = Some (movedFrom item)" .
    from f' Cons.prems obtain item0 where f: "find (hasId ?i) old = Some item0"
      and i: "item = (if ?i \<in> seen then movedFrom item0 else item0)"
      by (auto split: if_splits)
    have "\<forall>j. find (hasId j) old'' =
      (if j \<in> insert ?i seen then map_option movedFrom (find (hasId j) old)
       else find (hasId j) old)"
    proof
      fix j
      show "find (hasId j) old'' =
        (if j \<in> insert ?i seen then map_option movedFrom (find (hasId j) old)
         else find (hasId j) old)"
      proof (cases "j = ?i")
        case True
        with m f i show ?thesis by (simp add: movedFrom_idem)
      next
        case False
        with o Cons.prems show ?thesis by simp
      qed
    qed
    then have "reconcile els old'' (acc @ [mergeItem item el])
        = (acc @ [mergeItem item el]) @ reconciledFrom (insert ?i seen) old els"
      by (rule Cons.IH)
    with Some p f i show ?thesis by simp
  qed
qed

lemma reconciledFrom_length: "length (reconciledFrom seen old c) = length c"
  by (induction c arbitrary: seen) simp_all

lemma reconciledFrom_nth:
  assumes "k < length c"
  shows "reconciledFrom seen old c ! k =
     (case find (hasId (elem_id (c ! k))) old of
        Some item \<Rightarrow>
          mergeItem
            (if elem_id (c ! k) \<in> seen \<union> elem_id ` set (take k c) then movedFrom item else item)
            (c ! k)
      | None \<Rightarrow> newItem (c ! k))"
  using assms
proof (induction c arbitrary: seen k)
  case Nil
  then show ?case by simp
next
  case (Cons el els)
  show ?case
  proof (cases k)
    case 0
    then show ?thesis by (simp split: option.split)
  next
    case (Suc n)
    with Cons.prems have "n < length els" by simp
    from Cons.IH [OF this, of "insert (elem_id el) seen"] Suc show ?thesis
      by (simp split: option.split)
  qed
qed

lemma showContent_items:
  assumes "c \<noteq> []" and "c \<noteq> content w" and "showContent w c = Inr w'"
  shows "items w' = reconcile c (items w) []" and "content w' = c"
proof -
  let ?w2 = "w\<lparr>content := c, items := reconcile c (items w) []\<rparr>"
  from assms have "\<exists>w3. (w3 = ?w2 \<or> updateGeometry ?w2 = Inr w3)
      \<and> (w' = updateScrollMax w3 \<or> w' = (updateScrollMax w3)\<lparr>isEmpty := False\<rparr>)"
    by (auto simp add: showContent_def Let_def andThen_Inr split: if_splits)
  then obtain w3 where g: "w3 = ?w2 \<or> updateGeometry ?w2 = Inr w3"
    and w': "w' = updateScrollMax w3 \<or> w' = (updateScrollMax w3)\<lparr>isEmpty := False\<rparr>"
    by blast
  from g have "items w3 = reconcile c (items w) [] \<and> content w3 = c"
    by (auto dest: updateGeometry_frame)
  with w' show "items w' = reconcile c (items w) []" and "content w' = c"
    by (auto simp add: updateScrollMax_frame)
qed

lemma mergeItem_fields:
  "element (mergeItem item el) = el\<lparr>skipSmall := skipSmall (element item), elem_id := elem_id (element item)\<rparr>"
  "subscribed (mergeItem item el) = (subscribed item \<and> thumbnail (element item) = thumbnail el)"
  "nameCache (mergeItem item el) = (if name (element item) = name el then nameCache item else None)"
  "nameCacheColor (mergeItem item el) = nameCacheColor item"
  by (simp_all add: mergeItem_def Let_def)

text \<open>
  Claim C5, amended. When a content that is not empty and not the content stored is shown,
  the new items are those of the content, in its order, with the thumbnail, name and
  counts of the new elements. Where an id of the content occurs for the first time and
  was in the store, the item keeps its subscribed flag unless its thumbnail changed, and
  keeps its cached name image unless its name changed (the colour of the cache is kept
  too). An id that was not in the store gets a fresh item. Items whose id is not in the
  content are dropped. Where an id occurs again in the content, the item found for it is
  the one moved from before: the new item has no cached name image, and its subscribed
  flag is reset unless the new thumbnail is null. On a well-formed widget
  \<^verbatim>\<open>showContent\<close> does return a widget.
\<close>

theorem showContent_preserves_cache:
  assumes "c \<noteq> []" and "c \<noteq> content w"
  shows "(wellFormed w \<longrightarrow> (\<exists>u. showContent w c = Inr u))
    \<and> (showContent w c = Inr w' \<longrightarrow>
      length (items w') = length c
      \<and> (\<forall>k < length c.
         elem_id (element (items w' ! k)) = elem_id (c ! k)
         \<and> thumbnail (element (items w' ! k)) = thumbnail (c ! k)
         \<and> name (element (items w' ! k)) = name (c ! k)
         \<and> count (element (items w' ! k)) = count (c ! k)
         \<and> unreadCount (element (items w' ! k)) = unreadCount (c ! k)
         \<and> (case find (hasId (elem_id (c ! k))) (items w) of
              Some item \<Rightarrow>
                nameCacheColor (items w' ! k) = nameCacheColor item
                \<and> (if elem_id (c ! k) \<in> elem_id ` set (take k c)
                   then subscribed (items w' ! k) = (subscribed item \<and> thumbnail (c ! k) = None)
                     \<and> nameCache (items w' ! k) = None
                   else subscribed (items w' ! k)
                       = (subscribed item \<and> thumbnail (element item) = thumbnail (c ! k))
                     \<and> nameCache (items w' ! k)
                       = (if name (element item) = name (c ! k) then nameCache item else None))
            | None \<Rightarrow> items w' ! k = newItem (c ! k))))"
proof (rule conjI; rule impI)
  assume "wellFormed w"
  from succeedsD [OF showContent_wf [OF this, of c]] show "\<exists>u. showContent w c = Inr u"
    by blast
next
  assume s: "showContent w c = Inr w'"
  have "items w' = reconcile c (items w) []"
    using assms s by (rule showContent_items)
  also have "\<dots> = reconciledFrom {} (items w) c"
    using reconcile_general [of "items w" "{}" "items w" c "[]"] by simp
  finally have i: "items w' = reconciledFrom {} (items w) c" .
  have h: "elem_id (element item) = j" if "find (hasId j) old = Some item" for old j item
    using that by (auto simp add: find_Some_iff hasId_def)
  show "length (items w') = length c
      \<and> (\<forall>k < length c.
         elem_id (element (items w' ! k)) = elem_id (c ! k)
         \<and> thumbnail (element (items w' ! k)) = thumbnail (c ! k)
         \<and> name (element (items w' ! k)) = name (c ! k)
         \<and> count (element (items w' ! k)) = count (c ! k)
         \<and> unreadCount (element (items w' ! k)) = unreadCount (c ! k)
         \<and> (case find (hasId (elem_id (c ! k))) (items w) of
              Some item \<Rightarrow>
                nameCacheColor (items w' ! k) = nameCacheColor item
                \<and> (if elem_id (c ! k) \<in> elem_id ` set (take k c)
                   then subscribed (items w' ! k) = (subscribed item \<and> thumbnail (c ! k) = None)
                     \<and> nameCache (items w' ! k) = None
                   else subscribed (items w' ! k)
                       = (subscribed item \<and> thumbnail (element item) = thumbnail (c ! k))
                     \<and> nameCache (items w' ! k)
                       = (if name (element item) = name (c ! k) then nameCache item else None))
            | None \<Rightarrow> items w' ! k = newItem (c ! k)))"
    unfolding i
    by (auto simp add: reconciledFrom_length reconciledFrom_nth mergeItem_fields
        movedFrom_def newItem_def dest: h split: option.splits)
qed

text \<open>
  The store holds the items 1, 2, 3, all subscribed and with cached name images; the
  content 1, 3 with the same thumbnails and names keeps the flags and caches of 1 and 3
  and drops 2.
\<close>

lemma showContent_exampleCompact:
  "\<exists>w'. showContent exampleCompact [exampleElement 1, exampleElement 3] = Inr w'
     \<and> items w' = [exampleItem 1, exampleItem 3]"
  by (simp add: example_defs layout_defs eval_defs)

theorem showContent_preserves_cache_witness:
  "wellFormed exampleCompact
   \<and> items exampleCompact = [exampleItem 1, exampleItem 2, exampleItem 3]
   \<and> (\<exists>w'. showContent exampleCompact [exampleElement 1, exampleElement 3] = Inr w'
        \<and> map (\<lambda>i. elem_id (element i)) (items w') = [1, 3]
        \<and> map subscribed (items w') = [True, True]
        \<and> map nameCache (items w') = [Some 1, Some 3])"
proof -
  let ?c = "[exampleElement 1, exampleElement 3]"
  obtain w' where s: "showContent exampleCompact ?c = Inr w'"
    using showContent_exampleCompact by blast
  have n: "?c \<noteq> []" and o: "?c \<noteq> content exampleCompact"
    by (simp_all add: exampleElement_def exampleCompact_def)
  have i: "items exampleCompact = [exampleItem 1, exampleItem 2, exampleItem 3]"
    by (simp add: exampleCompact_def)
  have f: "find (hasId (Suc 0)) (items exampleCompact) = Some (exampleItem 1)"
    "find (hasId 3) (items exampleCompact) = Some (exampleItem 3)"
    by (simp_all add: i hasId_def exampleItem_def exampleElement_def)
  have e: "elem_id (exampleElement k) = k" "thumbnail (exampleElement k) = Some k"
    "name (exampleElement k) = ''story''" for k
    by (simp_all add: exampleElement_def)
  have t: "subscribed (exampleItem k)" "nameCache (exampleItem k) = Some k"
    "element (exampleItem k) = exampleElement k" for k
    by (simp_all add: exampleItem_def)
  note p = showContent_preserves_cache [OF n o, THEN conjunct2, THEN mp, OF s]
  from p have l: "length (items w') = 2"
    by simp
  from p [THEN conjunct2, THEN spec, of 0]
  have k0: "elem_id (element (items w' ! 0)) = 1 \<and> subscribed (items w' ! 0)
      \<and> nameCache (items w' ! 0) = Some 1"
    by (simp add: f e t)
  from p [THEN conjunct2, THEN spec, of 1]
  have k1: "elem_id (element (items w' ! 1)) = 3 \<and> subscribed (items w' ! 1)
      \<and> nameCache (items w' ! 1) = Some 3"
    by (simp add: f e t)
  from l obtain a b where ab: "items w' = [a, b]"
    by (cases "items w'"; cases "tl (items w')") auto
  with k0 k1 have "map (\<lambda>i. elem_id (element i)) (items w') = [1, 3]"
    and "map subscribed (items w') = [True, True]"
    and "map nameCache (items w') = [Some 1, Some 3]"
    by simp_all
  with i s show ?thesis
    by (intro conjI exI [of _ w']) (simp_all add: example_wellFormed)
qed

text \<open>
  Claim C5 as stated fails on a content that repeats an id. The store holds the item 1,
  subscribed and with a cached name image; the content 1, 1 has its thumbnail and its name
  twice. The second item made is not subscribed and has no cached name image, though
  neither the thumbnail nor the name has changed.
\<close>

theorem showContent_preserves_cache_counterexample:
  "find (hasId 1) (items exampleCompact) = Some (exampleItem 1)
   \<and> subscribed (exampleItem 1) \<and> nameCache (exampleItem 1) = Some 1
   \<and> thumbnail (element (exampleItem 1)) = thumbnail (exampleElement 1)
   \<and> name (element (exampleItem 1)) = name (exampleElement 1)
   \<and> map_sum id (\<lambda>w. (map (\<lambda>i. elem_id (element i)) (items w), map subscribed (items w),
        map nameCache (items w)))
     (showContent exampleCompact [exampleElement 1, exampleElement 1])
     = Inr ([1, 1], [True, False], [Some 1, None])"
  by (simp add: example_defs layout_defs eval_defs hasId_def)

lemma showContent_empty_keeps_content:
  assumes "content w \<noteq> []"
  shows "showContent w [] = Inr (w\<lparr>items := [], isEmpty := True\<rparr>)"
    and "showContent (w\<lparr>items := [], isEmpty := True\<rparr>) (content w)
      = Inr (w\<lparr>items := [], isEmpty := True\<rparr>)"
  using assms by (simp_all add: showContent_def)

text \<open>
  Claim C4 fails on the code. The empty content clears the items and returns before
  \<^verbatim>\<open>_content\<close> is assigned, so the stored content is still the one shown before; shown
  again, that content equals the stored one and \<^verbatim>\<open>showContent\<close> returns at once. After
  the contents 1, 2, 3, then empty, then 1, 2, 3 again, the store holds no item and is
  marked empty. The lemma before says it of every widget: after the empty content the
  content stored before is ignored.
\<close>

theorem showContent_after_empty:
  "map_sum id (\<lambda>w. (map (\<lambda>i. elem_id (element i)) (items w), isEmpty w))
     (run (initial exampleStyle) [ShowContent (map exampleElement [1, 2, 3])])
     = Inr ([1, 2, 3], False)
   \<and> map_sum id (\<lambda>w. (items w, isEmpty w, content w))
     (run (initial exampleStyle)
        [ShowContent (map exampleElement [1, 2, 3]), ShowContent [],
         ShowContent (map exampleElement [1, 2, 3])])
     = Inr ([], True, map exampleElement [1, 2, 3])"
  by (simp add: example_defs layout_defs eval_defs)

subsection \<open>The scroll offset\<close>

lemma scrollInv_view:
  "scrollView w' = scrollView w \<Longrightarrow> scrollInv b w \<Longrightarrow> scrollInv b w'"
  by (simp add: scrollView_def scrollInv_def scrollInRange_def scrollMaxExact_def
      scrollBound_def width_def)

lemma checkLoadMore_view: "scrollView (checkLoadMore w) = scrollView w"
  by (simp add: checkLoadMore_def fire_def scrollView_def)

lemma fire_view: "scrollView (fire e w) = scrollView w"
  by (simp add: fire_def scrollView_def)

lemma updateScrollMax_inv: "scrollInv b (updateScrollMax w)"
proof -
  let ?m = "max (left_st (full (st w))
          + int (length (items w)) * (photoLeft_st (full (st w)) * 2 + photo_st (full (st w)))
          - width w) 0"
  let ?w2 = "w\<lparr>scrollLeftMax := ?m, scrollLeft := clamp (scrollLeft w) 0 ?m\<rparr>"
  have e: "updateScrollMax w = checkLoadMore ?w2"
    by (simp add: updateScrollMax_def Let_def)
  have c: "0 \<le> clamp x 0 ?m \<and> clamp x 0 ?m \<le> ?m" for x
    by (auto simp add: clamp_def max_def)
  have "scrollInv b ?w2"
    using c [of "scrollLeft w"]
    by (simp add: scrollInv_def scrollInRange_def scrollMaxExact_def scrollBound_def width_def)
  then show ?thesis
    unfolding e by (rule scrollInv_view [OF checkLoadMore_view])
qed

lemma setGeometry_inv:
  assumes "scrollInv b w"
  shows "scrollInv b (setGeometry w r)"
proof (cases "rectWidth r \<noteq> rectWidth (geometry w) \<or> rectHeight r \<noteq> rectHeight (geometry w)")
  case True
  then have "setGeometry w r = updateScrollMax (w\<lparr>geometry := r\<rparr>)"
    by (simp add: setGeometry_def Let_def resizeEvent_def)
  then show ?thesis by (simp add: updateScrollMax_inv)
next
  case False
  then have "setGeometry w r = w\<lparr>geometry := r\<rparr>" and "rectWidth r = rectWidth (geometry w)"
    by (simp_all add: setGeometry_def Let_def)
  with assms show ?thesis
    by (cases b)
      (simp_all add: scrollInv_def scrollInRange_def scrollMaxExact_def scrollBound_def width_def)
qed

lemma updateGeometry_inv:
  assumes "scrollInv b w" and "updateGeometry w = Inr w'"
  shows "scrollInv b w'"
proof (cases "state w")
  case Small
  with assms(2) obtain r where "w' = setGeometry w r"
    by (auto simp add: updateGeometry_def andThen_Inr)
  with assms(1) show ?thesis by (simp add: setGeometry_inv)
next
  case Changing
  with assms(2) obtain r q where w': "w' = setGeometry (w\<lparr>changingGeometryFrom := q\<rparr>) r"
    by (auto simp add: updateGeometry_def andThen_Inr Let_def)
  have "scrollView (w\<lparr>changingGeometryFrom := q\<rparr>) = scrollView w"
    by (simp add: scrollView_def)
  then have "scrollInv b (w\<lparr>changingGeometryFrom := q\<rparr>)"
    using assms(1) by (rule scrollInv_view)
  then show ?thesis unfolding w' by (rule setGeometry_inv)
next
  case Full
  with assms(2) have "w' = setGeometry w (geometryFull w)"
    by (auto simp add: updateGeometry_def)
  with assms(1) show ?thesis by (simp add: setGeometry_inv)
qed

lemma setState_inv:
  assumes "scrollInv b w" and "setState w s = Inr w'"
  shows "scrollInv b w'"
proof (cases "state w = s")
  case True
  with assms(2) have "w' = w" by (simp add: setState_def)
  with assms(1) show ?thesis by simp
next
  case False
  with assms(2) have u: "updateGeometry (w\<lparr>state := s\<rparr>) = Inr w'"
    by (simp add: setState_def)
  have "scrollView (w\<lparr>state := s\<rparr>) = scrollView w"
    by (simp add: scrollView_def)
  then have "scrollInv b (w\<lparr>state := s\<rparr>)"
    using assms(1) by (rule scrollInv_view)
  then show ?thesis using u by (rule updateGeometry_inv)
qed

lemma checkForFullState_inv:
  assumes "scrollInv b w" and "checkForFullState w = Inr (w', f)"
  shows "scrollInv b w'"
proof -
  from assms(2) have "w' = w \<or> setState w Full = Inr w'"
    by (auto simp add: checkForFullState_def andThen_Inr split: if_splits)
  with assms(1) show ?thesis
    by (auto dest: setState_inv)
qed

lemma setExpandedHeight_inv:
  assumes "scrollInv b w" and "setExpandedHeight w h m = Inr w'"
  shows "scrollInv b w'"
proof -
  define h' where "h' = clamp h 0 (height_st (full (st w)))"
  define w2 where "w2 =
    (if \<not> m \<and> expandIgnored w \<and> h' > 0
     then w\<lparr>expandIgnored := False,
            expandCatchUpAnimation := anim_start (expandCatchUpAnimation w) 0\<rparr>
     else if h' = 0 \<and> animating (expandCatchUpAnimation w)
     then w\<lparr>expandCatchUpAnimation := None\<rparr>
     else w)\<lparr>lastExpandedHeight := h'\<rparr>"
  have e: "setExpandedHeight w h m =
     (if lastExpandedHeight w = h' then Inr w
      else if m \<and> expandIgnored w then Inr w
      else if m \<and> h' > 0 \<and> lastExpandedHeight w = 0 then Inr (w\<lparr>expandIgnored := True\<rparr>)
      else andThen (checkForFullState w2) (\<lambda>p.
             if \<not> snd p then setState (fst p) (if h' = 0 then Small else Changing)
             else Inr (fst p)))"
    unfolding setExpandedHeight_def h'_def w2_def Let_def case_prod_unfold ..
  have v2: "scrollView w2 = scrollView w"
    by (simp add: w2_def scrollView_def)
  have i2: "scrollInv b w2"
    using v2 assms(1) by (rule scrollInv_view)
  have "w' = w \<or> w' = w\<lparr>expandIgnored := True\<rparr>
      \<or> (\<exists>p. checkForFullState w2 = Inr p
           \<and> (w' = fst p \<or> setState (fst p) (if h' = 0 then Small else Changing) = Inr w'))"
  proof (cases "lastExpandedHeight w = h' \<or> (m \<and> expandIgnored w)")
    case True
    then have "setExpandedHeight w h m = Inr w" unfolding e by auto
    with assms(2) show ?thesis by simp
  next
    case n1: False
    show ?thesis
    proof (cases "m \<and> h' > 0 \<and> lastExpandedHeight w = 0")
      case True
      with n1 have "setExpandedHeight w h m = Inr (w\<lparr>expandIgnored := True\<rparr>)"
        unfolding e by auto
      with assms(2) show ?thesis by simp
    next
      case n2: False
      with n1 have "setExpandedHeight w h m = andThen (checkForFullState w2) (\<lambda>p.
             if \<not> snd p then setState (fst p) (if h' = 0 then Small else Changing)
             else Inr (fst p))"
        unfolding e by auto
      with assms(2) have "andThen (checkForFullState w2) (\<lambda>p.
             if \<not> snd p then setState (fst p) (if h' = 0 then Small else Changing)
             else Inr (fst p)) = Inr w'"
        by simp
      then obtain p where "checkForFullState w2 = Inr p"
        and "(if \<not> snd p then setState (fst p) (if h' = 0 then Small else Changing)
             else Inr (fst p)) = Inr w'"
        unfolding andThen_Inr by blast
      then show ?thesis by (cases "snd p") auto
    qed
  qed
  then consider "w' = w" | "w' = w\<lparr>expandIgnored := True\<rparr>"
    | p where "checkForFullState w2 = Inr p"
        "w' = fst p \<or> setState (fst p) (if h' = 0 then Small else Changing) = Inr w'"
    by blast
  then show ?thesis
  proof cases
    case 1
    with assms(1) show ?thesis by simp
  next
    case 2
    have "scrollView (w\<lparr>expandIgnored := True\<rparr>) = scrollView w"
      by (simp add: scrollView_def)
    then show ?thesis unfolding 2 using assms(1) by (rule scrollInv_view)
  next
    case 3
    from 3(1) have "checkForFullState w2 = Inr (fst p, snd p)" by simp
    with i2 have "scrollInv b (fst p)" by (rule checkForFullState_inv)
    with 3(2) show ?thesis by (auto dest: setState_inv)
  qed
qed

lemma setLayoutConstraints_inv:
  assumes "scrollInv b w" and "setLayoutConstraints w p a r = Inr w'"
  shows "scrollInv b w'"
proof -
  let ?v = "w\<lparr>positionSmall := p, alignSmall := a, geometryFull := r\<rparr>"
  have "scrollView ?v = scrollView w" by (simp add: scrollView_def)
  then have "scrollInv b ?v" using assms(1) by (rule scrollInv_view)
  moreover from assms(2) have "updateGeometry ?v = Inr w'"
    by (simp add: setLayoutConstraints_def)
  ultimately show ?thesis by (rule updateGeometry_inv)
qed

lemma expandedAnimationTick_inv:
  assumes "scrollInv b w" and "expandedAnimationTick w a = Inr w'"
  shows "scrollInv b w'"
proof -
  let ?v = "w\<lparr>expandedAnimation := a\<rparr>"
  have "scrollView ?v = scrollView w" by (simp add: scrollView_def)
  then have "scrollInv b ?v" using assms(1) by (rule scrollInv_view)
  moreover from assms(2) obtain f where "checkForFullState ?v = Inr (w', f)"
    by (auto simp add: expandedAnimationTick_def andThen_Inr)
  ultimately show ?thesis by (rule checkForFullState_inv)
qed

lemma expandCatchUpAnimationTick_inv:
  assumes "scrollInv b w" and "expandCatchUpAnimationTick w a = Inr w'"
  shows "scrollInv b w'"
proof -
  let ?v = "w\<lparr>expandCatchUpAnimation := a\<rparr>"
  have "scrollView ?v = scrollView w" by (simp add: scrollView_def)
  then have "scrollInv b ?v" using assms(1) by (rule scrollInv_view)
  moreover from assms(2) obtain f where "checkForFullState ?v = Inr (w', f)"
    by (auto simp add: expandCatchUpAnimationTick_def andThen_Inr)
  ultimately show ?thesis by (rule checkForFullState_inv)
qed

lemma scrollTo_inv:
  assumes "scrollInv b w"
  shows "scrollInv b (w\<lparr>scrollLeft := clamp x 0 (scrollLeftMax w)\<rparr>)"
  using assms
  by (auto simp add: scrollInv_def scrollInRange_def scrollMaxExact_def scrollBound_def
      width_def clamp_def)

lemma updateSelected_inv:
  assumes "scrollInv b w" and "updateSelected w = Inr w'"
  shows "scrollInv b w'"
  using updateSelected_view [OF assms(2)] assms(1) by (rule scrollInv_view)

lemma checkDragging_inv:
  assumes "scrollInv b w" and "checkDragging w = Inr w'"
  shows "scrollInv b w'"
proof -
  from assms(2) have
    "w' = w \<or> (\<exists>x. w' = checkLoadMore (w\<lparr>scrollLeft := clamp x 0 (scrollLeftMax w)\<rparr>))"
    by (auto simp add: checkDragging_def Let_def split: if_splits option.splits)
  then show ?thesis
  proof
    assume "w' = w"
    with assms(1) show ?thesis by simp
  next
    assume "\<exists>x. w' = checkLoadMore (w\<lparr>scrollLeft := clamp x 0 (scrollLeftMax w)\<rparr>)"
    then obtain x where w': "w' = checkLoadMore (w\<lparr>scrollLeft := clamp x 0 (scrollLeftMax w)\<rparr>)"
      by blast
    show ?thesis
      unfolding w' by (rule scrollInv_view [OF checkLoadMore_view scrollTo_inv [OF assms(1)]])
  qed
qed

lemma wheelEvent_inv:
  assumes "scrollInv b w" and "wheelEvent w e = Inr w'"
  shows "scrollInv b w'"
proof -
  from assms(2) have
    "w' = w \<or> (\<exists>x w1. updateSelected ((requestExpanded w True)\<lparr>scrollLeft := clamp x 0 (scrollLeftMax w)\<rparr>) = Inr w1
        \<and> w' = checkLoadMore w1)"
    by (auto simp add: wheelEvent_def Let_def andThen_Inr split: if_splits)
  then show ?thesis
  proof
    assume "w' = w"
    with assms(1) show ?thesis by simp
  next
    assume "\<exists>x w1. updateSelected ((requestExpanded w True)\<lparr>scrollLeft := clamp x 0 (scrollLeftMax w)\<rparr>) = Inr w1
        \<and> w' = checkLoadMore w1"
    then obtain x w1 where
      u: "updateSelected ((requestExpanded w True)\<lparr>scrollLeft := clamp x 0 (scrollLeftMax w)\<rparr>) = Inr w1"
      and w': "w' = checkLoadMore w1"
      by blast
    have "scrollView ((requestExpanded w True)\<lparr>scrollLeft := clamp x 0 (scrollLeftMax w)\<rparr>)
        = scrollView (w\<lparr>scrollLeft := clamp x 0 (scrollLeftMax w)\<rparr>)"
      using requestExpanded_view [of w True] by (simp add: scrollView_def)
    then have "scrollInv b ((requestExpanded w True)\<lparr>scrollLeft := clamp x 0 (scrollLeftMax w)\<rparr>)"
      using scrollTo_inv [OF assms(1)] by (rule scrollInv_view)
    then have "scrollInv b w1" using u by (rule updateSelected_inv)
    with checkLoadMore_view show ?thesis unfolding w' by (rule scrollInv_view)
  qed
qed

lemma mousePressEvent_inv:
  assumes "scrollInv b w" and "mousePressEvent w e = Inr w'"
  shows "scrollInv b w'"
proof -
  from assms(2) have
    "w' = w \<or> (\<exists>w0 w1. scrollView w0 = scrollView w \<and> updateSelected w0 = Inr w1
        \<and> scrollView w' = scrollView w1)"
  proof (cases "button e \<noteq> LeftButton \<or> state w = Changing")
    case True
    then have "mousePressEvent w e = Inr w"
      by (auto simp add: mousePressEvent_def Let_def)
    with assms(2) show ?thesis by simp
  next
    case False
    let ?w0 = "(if state w = Small then requestExpanded w True else w)\<lparr>lastMousePosition := globalPos e\<rparr>"
    from False assms(2) obtain w1 where u: "updateSelected ?w0 = Inr w1"
      and w': "w' = w1\<lparr>mouseDownPosition := Some (lastMousePosition w1), pressed := selected w1\<rparr>"
      by (cases "state w") (auto simp add: mousePressEvent_def Let_def andThen_Inr)
    have "scrollView ?w0 = scrollView w"
      using requestExpanded_view [of w True] by (simp add: scrollView_def)
    moreover have "scrollView w' = scrollView w1"
      unfolding w' by (simp add: scrollView_def)
    ultimately show ?thesis using u by blast
  qed
  then show ?thesis
  proof
    assume "w' = w"
    with assms(1) show ?thesis by simp
  next
    assume "\<exists>w0 w1. scrollView w0 = scrollView w \<and> updateSelected w0 = Inr w1
        \<and> scrollView w' = scrollView w1"
    then obtain w0 w1 where a: "scrollView w0 = scrollView w" and u: "updateSelected w0 = Inr w1"
      and c: "scrollView w' = scrollView w1"
      by blast
    from a assms(1) have "scrollInv b w0" by (rule scrollInv_view)
    then have "scrollInv b w1" using u by (rule updateSelected_inv)
    with c show ?thesis by (rule scrollInv_view)
  qed
qed

lemma mouseMoveEvent_inv:
  assumes "scrollInv b w" and "mouseMoveEvent w e = Inr w'"
  shows "scrollInv b w'"
proof -
  from assms(2) obtain w1 w2 where u: "updateSelected (w\<lparr>lastMousePosition := globalPos e\<rparr>) = Inr w1"
    and d: "checkDragging w2 = Inr w'"
    and w2: "w2 = w1 \<or> w2 = w1\<lparr>dragging := True, startDraggingLeft := scrollLeft w1\<rparr>"
    by (auto simp add: mouseMoveEvent_def andThen_Inr split: option.splits if_splits)
  have "scrollView (w\<lparr>lastMousePosition := globalPos e\<rparr>) = scrollView w"
    by (simp add: scrollView_def)
  then have "scrollInv b (w\<lparr>lastMousePosition := globalPos e\<rparr>)"
    using assms(1) by (rule scrollInv_view)
  then have i1: "scrollInv b w1" using u by (rule updateSelected_inv)
  from w2 have "scrollView w2 = scrollView w1" by (auto simp add: scrollView_def)
  then have "scrollInv b w2" using i1 by (rule scrollInv_view)
  then show ?thesis using d by (rule checkDragging_inv)
qed

lemma finishDragging_inv:
  assumes "scrollInv b w" and "finishDragging w = Inr (w', f)"
  shows "scrollInv b w'"
proof (cases "dragging w")
  case False
  with assms show ?thesis by (simp add: finishDragging_def)
next
  case True
  with assms(2) obtain w1 where d: "checkDragging w = Inr w1"
    and u: "updateSelected (w1\<lparr>dragging := False\<rparr>) = Inr w'"
    by (auto simp add: finishDragging_def andThen_Inr)
  from assms(1) d have i: "scrollInv b w1" by (rule checkDragging_inv)
  have "scrollView (w1\<lparr>dragging := False\<rparr>) = scrollView w1" by (simp add: scrollView_def)
  then have "scrollInv b (w1\<lparr>dragging := False\<rparr>)" using i by (rule scrollInv_view)
  then show ?thesis using u by (rule updateSelected_inv)
qed

lemma mouseReleaseEvent_inv:
  assumes "scrollInv b w" and "mouseReleaseEvent w e = Inr w'"
  shows "scrollInv b w'"
proof -
  let ?w1 = "w\<lparr>lastMousePosition := globalPos e, pressed := - 1\<rparr>"
  have "scrollView ?w1 = scrollView w" by (simp add: scrollView_def)
  then have i1: "scrollInv b ?w1" using assms(1) by (rule scrollInv_view)
  have e: "mouseReleaseEvent w e = andThen (finishDragging ?w1) (\<lambda>p.
           if snd p then Inr ((fst p)\<lparr>mouseDownPosition := None\<rparr>)
           else andThen (updateSelected (fst p)) (\<lambda>w3.
             Inr ((if selected w3 = pressed w
                    then (if \<not> expanded w3
                      then requestExpanded w3 True
                      else if asSizeT (selected w3) < int (length (items w3))
                      then fire
                        (Clicked (elem_id (element (items w3 ! nat (selected w3)))))
                        w3
                      else w3)
                    else w3)\<lparr>mouseDownPosition := None\<rparr>)))"
    by (simp add: mouseReleaseEvent_def Let_def case_prod_unfold cong: if_cong)
  from assms(2) obtain p where fdp: "finishDragging ?w1 = Inr p"
    and r: "(if snd p then Inr ((fst p)\<lparr>mouseDownPosition := None\<rparr>)
           else andThen (updateSelected (fst p)) (\<lambda>w3.
             Inr ((if selected w3 = pressed w
                    then (if \<not> expanded w3
                      then requestExpanded w3 True
                      else if asSizeT (selected w3) < int (length (items w3))
                      then fire
                        (Clicked (elem_id (element (items w3 ! nat (selected w3)))))
                        w3
                      else w3)
                    else w3)\<lparr>mouseDownPosition := None\<rparr>))) = Inr w'"
    unfolding e andThen_Inr by blast
  define w2 where "w2 = fst p"
  define f where "f = snd p"
  have fd: "finishDragging ?w1 = Inr (w2, f)"
    using fdp by (simp add: w2_def f_def)
  note r = r [folded w2_def f_def]
  from i1 fd have i2: "scrollInv b w2" by (rule finishDragging_inv)
  show ?thesis
  proof (cases f)
    case True
    with r have "scrollView w' = scrollView w2" by (auto simp add: scrollView_def)
    then show ?thesis using i2 by (rule scrollInv_view)
  next
    case False
    with r have "\<exists>w3 w4. updateSelected w2 = Inr w3
        \<and> (w4 = w3 \<or> w4 = requestExpanded w3 True \<or> (\<exists>ev. w4 = fire ev w3))
        \<and> w' = w4\<lparr>mouseDownPosition := None\<rparr>"
      by (auto simp add: andThen_Inr split: if_splits)
    then obtain w3 w4 where u: "updateSelected w2 = Inr w3"
      and w4: "w4 = w3 \<or> w4 = requestExpanded w3 True \<or> (\<exists>ev. w4 = fire ev w3)"
      and w': "w' = w4\<lparr>mouseDownPosition := None\<rparr>"
      by blast
    from i2 u have i3: "scrollInv b w3" by (rule updateSelected_inv)
    from w4 have "scrollView w4 = scrollView w3"
      by (auto simp add: requestExpanded_view fire_view)
    then have "scrollView w' = scrollView w3"
      unfolding w' by (simp add: scrollView_def)
    then show ?thesis using i3 by (rule scrollInv_view)
  qed
qed

lemma showContent_inv:
  assumes "scrollInv b w" and "b \<longrightarrow> c \<noteq> []" and "showContent w c = Inr w'"
  shows "scrollInv b w'"
proof -
  consider "content w = c" | "content w \<noteq> c" "c = []" | "content w \<noteq> c" "c \<noteq> []"
    by blast
  then show ?thesis
  proof cases
    case 1
    with assms(3) have "w' = w" by (simp add: showContent_def)
    with assms(1) show ?thesis by simp
  next
    case 2
    with assms(3) have "w' = w\<lparr>items := [], isEmpty := True\<rparr>" by (simp add: showContent_def)
    with assms(1,2) 2 show ?thesis
      by (simp add: scrollInv_def scrollInRange_def)
  next
    case 3
    with assms(3) have "\<exists>w3. w' = updateScrollMax w3 \<or> w' = (updateScrollMax w3)\<lparr>isEmpty := False\<rparr>"
      by (auto simp add: showContent_def Let_def andThen_Inr split: if_splits)
    then obtain w3 where "w' = updateScrollMax w3 \<or> w' = (updateScrollMax w3)\<lparr>isEmpty := False\<rparr>"
      by blast
    then have "scrollView w' = scrollView (updateScrollMax w3)"
      by (auto simp add: scrollView_def)
    then show ?thesis using updateScrollMax_inv by (rule scrollInv_view)
  qed
qed

lemma step_inv:
  assumes "scrollInv b w" and "b \<longrightarrow> \<not> clearsItems i" and "step w i = Inr w'"
  shows "scrollInv b w'"
proof (cases i)
  case (ShowContent c)
  with assms show ?thesis by (auto intro: showContent_inv)
next
  case (Resize wd ht)
  with assms(3) show ?thesis by (auto simp add: resizeEvent_def updateScrollMax_inv)
next
  case (Wheel e)
  with assms show ?thesis by (auto intro: wheelEvent_inv)
next
  case (MousePress e)
  with assms show ?thesis by (auto intro: mousePressEvent_inv)
next
  case (MouseMove e)
  with assms show ?thesis by (auto intro: mouseMoveEvent_inv)
next
  case (MouseRelease e)
  with assms show ?thesis by (auto intro: mouseReleaseEvent_inv)
next
  case (SetExpandedHeight h m)
  with assms show ?thesis by (auto intro: setExpandedHeight_inv)
next
  case (SetLayoutConstraints p a r)
  with assms show ?thesis by (auto intro: setLayoutConstraints_inv)
next
  case (ExpandedAnimationTick a)
  with assms show ?thesis by (auto intro: expandedAnimationTick_inv)
next
  case (ExpandCatchUpAnimationTick a)
  with assms show ?thesis by (auto intro: expandCatchUpAnimationTick_inv)
qed

lemma run_inv:
  assumes "scrollInv b w" and "b \<longrightarrow> \<not> list_ex clearsItems is" and "run w is = Inr w'"
  shows "scrollInv b w'"
  using assms
proof (induction "is" arbitrary: w)
  case Nil
  then show ?case by simp
next
  case (Cons i "is")
  from Cons.prems(3) obtain w1 where s: "step w i = Inr w1" and r: "run w1 is = Inr w'"
    by (auto simp add: andThen_Inr)
  from Cons.prems(1,2) s have "scrollInv b w1"
    by (intro step_inv [of b w i w1]) simp_all
  with Cons.prems(2) r show ?case
    by (intro Cons.IH [of w1]) simp_all
qed

text \<open>
  Claim C6, amended. After any run of inputs (contents, resizes, wheel, press, move and
  release events, expanded heights, layout constraints, animation ticks) from a widget
  whose offset is within 0 and the stored maximum, the offset is within 0 and the stored
  maximum. Every resize event and every shown content that is neither empty nor the
  stored one leaves the stored maximum equal to \<open>scrollBound\<close>, that is
  \<^verbatim>\<open>max(widthFull - width(), 0)\<close>; and a run without an empty content from a widget
  whose stored maximum is that bound ends in one, so that its offset is within 0 and
  \<open>scrollBound\<close>. A run from a well-formed widget, with animation values between 0 and 1,
  does end in a widget.
\<close>

theorem scroll_offset_in_range:
  assumes "scrollInRange w"
  shows "(wellFormed w \<and> list_all inputOk is \<longrightarrow> (\<exists>u. run w is = Inr u))
    \<and> (run w is = Inr w' \<longrightarrow> scrollInRange w')
    \<and> (run w is = Inr w' \<and> scrollMaxExact w \<and> \<not> list_ex clearsItems is
        \<longrightarrow> scrollMaxExact w' \<and> 0 \<le> scrollLeft w' \<and> scrollLeft w' \<le> scrollBound w')
    \<and> (step v (Resize wd ht) = Inr v'
        \<longrightarrow> scrollMaxExact v' \<and> 0 \<le> scrollLeft v' \<and> scrollLeft v' \<le> scrollBound v')
    \<and> (c \<noteq> [] \<and> c \<noteq> content v \<and> step v (ShowContent c) = Inr v''
        \<longrightarrow> scrollMaxExact v'' \<and> 0 \<le> scrollLeft v'' \<and> scrollLeft v'' \<le> scrollBound v'')"
proof -
  have b: "scrollMaxExact u \<and> 0 \<le> scrollLeft u \<and> scrollLeft u \<le> scrollBound u"
    if "scrollInv True u" for u
    using that by (simp add: scrollInv_def scrollInRange_def scrollMaxExact_def)
  have 0: "\<exists>u. run w is = Inr u" if "wellFormed w" "list_all inputOk is"
    using succeedsD [OF run_wf [OF that]] by blast
  have 1: "scrollInRange w'" if r: "run w is = Inr w'"
  proof -
    from assms(1) have "scrollInv False w" by (simp add: scrollInv_def)
    then have "scrollInv False w'" using _ r by (rule run_inv) simp
    then show ?thesis by (simp add: scrollInv_def)
  qed
  have 2: "scrollMaxExact w' \<and> 0 \<le> scrollLeft w' \<and> scrollLeft w' \<le> scrollBound w'"
    if r: "run w is = Inr w'" and "scrollMaxExact w" "\<not> list_ex clearsItems is"
  proof -
    from assms(1) that(2) have "scrollInv True w" by (simp add: scrollInv_def)
    then have "scrollInv True w'" using _ r by (rule run_inv) (simp add: that(3))
    then show ?thesis by (rule b)
  qed
  have 3: "scrollMaxExact v' \<and> 0 \<le> scrollLeft v' \<and> scrollLeft v' \<le> scrollBound v'"
    if "step v (Resize wd ht) = Inr v'"
  proof -
    from that have "v' = updateScrollMax (v\<lparr>geometry := mkRect (x1 (geometry v)) (y1 (geometry v)) wd ht\<rparr>)"
      by (simp add: resizeEvent_def)
    then have "scrollInv True v'" by (simp add: updateScrollMax_inv)
    then show ?thesis by (rule b)
  qed
  have 4: "scrollMaxExact v'' \<and> 0 \<le> scrollLeft v'' \<and> scrollLeft v'' \<le> scrollBound v''"
    if "c \<noteq> []" "c \<noteq> content v" "step v (ShowContent c) = Inr v''"
  proof -
    from that have "\<exists>w3. v'' = updateScrollMax w3 \<or> v'' = (updateScrollMax w3)\<lparr>isEmpty := False\<rparr>"
      by (auto simp add: showContent_def Let_def andThen_Inr split: if_splits)
    then obtain w3 where "v'' = updateScrollMax w3 \<or> v'' = (updateScrollMax w3)\<lparr>isEmpty := False\<rparr>"
      by blast
    then have "scrollView v'' = scrollView (updateScrollMax w3)"
      by (auto simp add: scrollView_def)
    then have "scrollInv True v''" using updateScrollMax_inv by (rule scrollInv_view)
    then show ?thesis by (rule b)
  qed
  from 0 1 2 3 4 show ?thesis by blast
qed

text \<open>
  A run of the expanded example widget: a wheel step, a drag by 60 pixels, a resize to
  the width 300 and a content of seven elements (which brings the widget back to its full
  geometry, 200 wide). It ends with the offset and the stored maximum 216, the bound for
  seven items in that width.
\<close>

lemma run_exampleFull:
  "\<exists>w'. run exampleFull exampleInputs = Inr w'
      \<and> scrollLeft w' = 216 \<and> scrollLeftMax w' = 216 \<and> width w' = 200 \<and> length (items w') = 7"
  "\<exists>v'. step exampleFull (Resize 300 90) = Inr v' \<and> scrollLeft v' = 200 \<and> scrollLeftMax v' = 290"
  "\<exists>v'. step exampleFull (ShowContent (map exampleElement [1, 2, 3])) = Inr v'
      \<and> scrollLeft v' = 0 \<and> scrollLeftMax v' = 0"
  by (simp_all add: example_defs layout_defs eval_defs exampleInputs_def)

theorem scroll_offset_in_range_witness:
  "scrollInRange exampleFull \<and> scrollMaxExact exampleFull
   \<and> wellFormed exampleFull \<and> list_all inputOk exampleInputs
   \<and> \<not> list_ex clearsItems exampleInputs
   \<and> (\<exists>w'. run exampleFull exampleInputs = Inr w'
        \<and> scrollLeft w' = 216 \<and> scrollLeftMax w' = 216 \<and> scrollBound w' = 216)
   \<and> (\<exists>v'. step exampleFull (Resize 300 90) = Inr v'
        \<and> scrollLeft v' = 200 \<and> scrollLeftMax v' = 290 \<and> scrollBound v' = 290)
   \<and> (\<exists>v'. step exampleFull (ShowContent (map exampleElement [1, 2, 3])) = Inr v'
        \<and> scrollLeft v' = 0 \<and> scrollLeftMax v' = 0 \<and> scrollBound v' = 0)"
proof -
  let ?c = "map exampleElement [1, 2, 3]"
  obtain w' where r: "run exampleFull exampleInputs = Inr w'"
    and rs: "scrollLeft w' = 216" "scrollLeftMax w' = 216"
    using run_exampleFull(1) by blast
  obtain v' where s1: "step exampleFull (Resize 300 90) = Inr v'"
    and s1s: "scrollLeft v' = 200" "scrollLeftMax v' = 290"
    using run_exampleFull(2) by blast
  obtain v'' where s2: "step exampleFull (ShowContent ?c) = Inr v''"
    and s2s: "scrollLeft v'' = 0" "scrollLeftMax v'' = 0"
    using run_exampleFull(3) by blast
  have h: "scrollInRange exampleFull" "scrollMaxExact exampleFull"
    by (simp_all add: exampleFull_def initial_def scrollInRange_def scrollMaxExact_def
        scrollBound_def exampleStyle_def width_def rectWidth_def mkRect_def)
  have n: "\<not> list_ex clearsItems exampleInputs"
    by (simp add: exampleInputs_def)
  have c: "?c \<noteq> []" "?c \<noteq> content exampleFull"
    by (simp_all add: exampleFull_def)
  have k: "list_all inputOk exampleInputs"
    by (simp add: exampleInputs_def)
  from scroll_offset_in_range [OF h(1), of exampleInputs w' exampleFull 300 90 v' ?c v'']
    r h(2) n s1 s2 c
  have "scrollMaxExact w'" "scrollMaxExact v'" "scrollMaxExact v''"
    by simp_all
  then have "scrollBound w' = 216" "scrollBound v' = 290" "scrollBound v'' = 0"
    using rs s1s s2s by (simp_all add: scrollMaxExact_def)
  with h n k r rs s1 s1s s2 s2s show ?thesis
    by (intro conjI exI [of _ w'] exI [of _ v'] exI [of _ v''])
      (simp_all add: example_wellFormed)
qed

text \<open>
  Claim C6 as stated fails. From the initial widget, a content of ten elements, the full
  geometry 200 wide, the full expanded height and a wheel step of 100 pixels give the
  offset 100 and the stored maximum 390, which is the bound. The empty content after them
  leaves no item, so the bound is 0; the stored maximum is still 390 and the offset still
  100.
\<close>

theorem scroll_offset_counterexample:
  "map_sum id (\<lambda>w. (length (items w), width w, scrollLeft w, scrollLeftMax w, scrollBound w))
     (run (initial exampleStyle)
        [ShowContent (map exampleElement [0, 1, 2, 3, 4, 5, 6, 7, 8, 9]),
         SetLayoutConstraints \<lparr>px = 0, py = 0\<rparr> 0 (mkRect 0 0 200 90),
         SetExpandedHeight 90 False,
         Wheel exampleWheel])
     = Inr (10, 200, 100, 390, 390)
   \<and> map_sum id (\<lambda>w. (length (items w), width w, scrollLeft w, scrollLeftMax w, scrollBound w))
     (run (initial exampleStyle)
        [ShowContent (map exampleElement [0, 1, 2, 3, 4, 5, 6, 7, 8, 9]),
         SetLayoutConstraints \<lparr>px = 0, py = 0\<rparr> 0 (mkRect 0 0 200 90),
         SetExpandedHeight 90 False,
         Wheel exampleWheel,
         ShowContent []])
     = Inr (0, 200, 100, 390, 0)"
  by (simp add: example_defs layout_defs eval_defs)

subsection \<open>Press and release\<close>

text \<open>
  Claim C7 fails on the code, in its second half. In the state \<^verbatim>\<open>Small\<close> the press
  handler calls \<^verbatim>\<open>requestExpanded(true)\<close> and goes on to record the pressed item. At the
  release the widget is therefore expanded already, and the release handler fires the
  click instead of taking its branch for a widget that is not expanded. On the compact
  example widget a press and a release over the first item fire the expand request and
  then a click with the item's id.
\<close>

theorem press_release_compact:
  "state exampleCompact = Small \<and> \<not> expanded exampleCompact
   \<and> map_sum id (\<lambda>w. (fired w, pressed w, expanded w)) (run exampleCompact [MousePress examplePress])
       = Inr ([ToggleExpandedRequest True], 0, True)
   \<and> map_sum id fired (run exampleCompact [MousePress examplePress, MouseRelease examplePress])
       = Inr [ToggleExpandedRequest True, Clicked 1]"
  by (simp add: example_defs layout_defs eval_defs)

text \<open>
  The first half of the claim, on the expanded example widget: the same press and release
  fire one click with the id of the item under the pointer, and nothing else.
\<close>

lemma press_release_expanded:
  "state exampleFull = Full \<and> expanded exampleFull
   \<and> map_sum id fired (run exampleFull [MousePress examplePress, MouseRelease examplePress])
       = Inr [Clicked 3]"
  by (simp add: example_defs layout_defs eval_defs)

subsection \<open>Hit-testing beyond the last visible slot\<close>

text \<open>
  Claim C8 fails on the code when the trailing region is always clickable and the
  visible window does not start at 0. The branch for a candidate beyond the last slot
  yields \<^verbatim>\<open>endIndex - 1\<close>, an absolute index, where the other branches yield indices
  relative to \<^verbatim>\<open>startIndex\<close>; \<^verbatim>\<open>startIndex\<close> is then added to it. In the example
  the full presentation is active with the window from 3 to 7, the pointer at 199 is
  beyond the last slot, and the result is 3 + 6 = 9, not the last visible item 6. With
  the trailing region not clickable the result is -1, as the claim says. The last line
  is the fully expanded widget with the pointer right of it, at 250: 9 again.
\<close>

theorem updateSelected_beyond_last:
  "fullClickable (st exampleClickable)
   \<and> map_sum id (\<lambda>(w, l). (ratio l, startIndexFull l, endIndexFull l, itemsCount l,
          hitTest (st w) l 199))
       (computeLayoutCurrent exampleClickable) = Inr (3 / 5, 3, 7, 10, Inr 9)
   \<and> map_sum id selected
       (updateSelected (exampleClickable\<lparr>lastMousePosition := \<lparr>px = 199, py = 10\<rparr>\<rparr>)) = Inr 9
   \<and> \<not> fullClickable (st exampleChanging)
   \<and> map_sum id selected
       (updateSelected (exampleChanging\<lparr>lastMousePosition := \<lparr>px = 199, py = 10\<rparr>\<rparr>)) = Inr (- 1)
   \<and> map_sum id (\<lambda>(w, l). (ratio l, startIndexFull l, endIndexFull l, itemsCount l,
          hitTest (exampleStyle\<lparr>fullClickable := True\<rparr>) l 250))
       (computeLayoutCurrent exampleFull) = Inr (1, 3, 7, 10, Inr 9)"
  by (simp add: example_defs layout_defs eval_defs)

end
